theory Spec2Isabelle
  imports Complex_Main
begin

section \<open>Move selection and engine protocol of the chess AI service\<close>

text \<open>
  The service class \<open>ChessAI\<close> picks a move for the automated player. It either talks to
  a UCI engine running in a web worker or runs one of four selectors over the legal moves
  that the rules library \<open>chess.js\<close> enumerates. The embedding follows the TypeScript
  source function by function. JavaScript numbers that the code only ever uses as
  integers (depths, ratings, centipawn scores) are \<^typ>\<open>int\<close>; an optional field is an
  \<^typ>\<open>'a option\<close> with \<open>None\<close> for \<open>undefined\<close>.
\<close>

subsection \<open>JavaScript string primitives\<close>

definition startsWith :: "string \<Rightarrow> string \<Rightarrow> bool" where
  "startsWith s p \<longleftrightarrow> take (length p) s = p"

fun includes_str :: "string \<Rightarrow> string \<Rightarrow> bool" where
  "includes_str [] p = (p = [])"
| "includes_str (c # cs) p = (startsWith (c # cs) p \<or> includes_str cs p)"

text \<open>\<open>s.split(' ')\<close>: the pieces between single blanks, empty pieces included.\<close>

fun split_space :: "string \<Rightarrow> string list" where
  "split_space [] = [[]]"
| "split_space (c # cs) =
     (if c = CHR '' '' then [] # split_space cs
      else (case split_space cs of [] \<Rightarrow> [[c]] | t # ts \<Rightarrow> (c # t) # ts))"

text \<open>\<open>s.substring(a, b)\<close> for \<open>a \<le> b\<close>; both ends are clamped to the length.\<close>

definition substring :: "nat \<Rightarrow> nat \<Rightarrow> string \<Rightarrow> string" where
  "substring a b s = take (b - a) (drop a s)"

text \<open>\<open>xs[i]\<close>, which is \<open>undefined\<close> outside the array.\<close>

definition at_index :: "'a list \<Rightarrow> nat \<Rightarrow> 'a option" where
  "at_index xs i = (if i < length xs then Some (xs ! i) else None)"

definition is_digit :: "char \<Rightarrow> bool" where
  "is_digit c \<longleftrightarrow> c \<in> set ''0123456789''"

definition digit_val :: "char \<Rightarrow> nat" where
  "digit_val c = length (takeWhile (\<lambda>d. d \<noteq> c) ''0123456789'')"

definition digit_char :: "nat \<Rightarrow> char" where
  "digit_char n = ''0123456789'' ! n"

text \<open>The decimal text a template literal \<open>`${n}`\<close> gives for an integer.\<close>

fun show_nat :: "nat \<Rightarrow> string" where
  "show_nat n = (if n < 10 then [digit_char n] else show_nat (n div 10) @ [digit_char (n mod 10)])"

definition show_int :: "int \<Rightarrow> string" where
  "show_int i = (if i < 0 then CHR ''-'' # show_nat (nat (- i)) else show_nat (nat i))"

text \<open>\<open>parseInt\<close> on a text of the shape \<open>-?\d+\<close>.\<close>

definition parse_nat :: "string \<Rightarrow> nat" where
  "parse_nat ds = foldl (\<lambda>acc d. 10 * acc + digit_val d) 0 ds"

definition parseInt :: "string \<Rightarrow> int" where
  "parseInt s = (case s of [] \<Rightarrow> 0
      | c # cs \<Rightarrow> if c = CHR ''-'' then - int (parse_nat cs) else int (parse_nat s))"

text \<open>
  The regular expression \<open>/score cp (-?\d+)/\<close>: \<open>match_num\<close> matches the group at the head
  of a text (greedily), \<open>match_score_cp\<close> finds the leftmost match and gives its group.
\<close>

definition match_num :: "string \<Rightarrow> string option" where
  "match_num s = (case s of [] \<Rightarrow> None
      | c # cs \<Rightarrow>
          if c = CHR ''-'' then
            (if takeWhile is_digit cs = [] then None else Some (c # takeWhile is_digit cs))
          else if takeWhile is_digit s = [] then None else Some (takeWhile is_digit s))"

fun match_score_cp :: "string \<Rightarrow> string option" where
  "match_score_cp [] = None"
| "match_score_cp (c # cs) =
     (if startsWith (c # cs) ''score cp '' then
        (case match_num (drop 9 (c # cs)) of
           Some g \<Rightarrow> Some g
         | None \<Rightarrow> match_score_cp cs)
      else match_score_cp cs)"

subsection \<open>Settings and moves\<close>

datatype AILevel = easy | medium | hard | worstfish | random | huddle | swarm | custom

record AISettings =
  level :: AILevel
  depth :: "int option"
  time :: "int option"
  nodes :: "int option"
  eloRating :: "int option"
  limitStrength :: "bool option"
  skillLevel :: "int option"

text \<open>The fields \<open>from\<close> and \<open>to\<close> of the source are \<open>from_sq\<close> and \<open>to_sq\<close> here.\<close>

record AIMove =
  from_sq :: string
  to_sq :: string
  promotion :: "string option"

definition no_settings :: "AILevel \<Rightarrow> AISettings" where
  "no_settings l = \<lparr>level = l, depth = None, time = None, nodes = None, eloRating = None,
     limitStrength = None, skillLevel = None\<rparr>"

fun DEFAULT_SETTINGS :: "AILevel \<Rightarrow> AISettings option" where
  "DEFAULT_SETTINGS easy = Some ((no_settings easy)
     \<lparr>eloRating := Some 1320, limitStrength := Some True, skillLevel := Some 1, time := Some 500\<rparr>)"
| "DEFAULT_SETTINGS medium = Some ((no_settings medium)
     \<lparr>eloRating := Some 1800, limitStrength := Some True, skillLevel := Some 8, time := Some 1000\<rparr>)"
| "DEFAULT_SETTINGS hard = Some ((no_settings hard)
     \<lparr>eloRating := Some 2400, limitStrength := Some True, skillLevel := Some 15, time := Some 2000\<rparr>)"
| "DEFAULT_SETTINGS worstfish = Some ((no_settings worstfish)\<lparr>depth := Some 8\<rparr>)"
| "DEFAULT_SETTINGS random = Some (no_settings random)"
| "DEFAULT_SETTINGS huddle = Some (no_settings huddle)"
| "DEFAULT_SETTINGS swarm = Some (no_settings swarm)"
| "DEFAULT_SETTINGS custom = None"

text \<open>Truthiness of an optional number and of an optional flag.\<close>

definition truthy_num :: "int option \<Rightarrow> bool" where
  "truthy_num x = (case x of None \<Rightarrow> False | Some n \<Rightarrow> n \<noteq> 0)"

definition truthy_flag :: "bool option \<Rightarrow> bool" where
  "truthy_flag x = (case x of None \<Rightarrow> False | Some b \<Rightarrow> b)"

subsection \<open>Parsing a \<open>bestmove\<close> line\<close>

definition parse_bestmove :: "string \<Rightarrow> AIMove option" where
  "parse_bestmove message =
     (let parts = split_space message;
          moveString = at_index parts 1
      in case moveString of
           None \<Rightarrow> None
         | Some ms \<Rightarrow>
             if ms = [] \<or> ms = ''(none)'' then None
             else Some \<lparr>from_sq = substring 0 2 ms, to_sq = substring 2 4 ms,
                       promotion = (if length ms > 4 then Some (drop 4 ms) else None)\<rparr>)"

subsection \<open>The service object and a pending request\<close>

text \<open>
  A call of an \<open>async\<close> function ends in one of three ways: the promise is fulfilled,
  it is rejected, or it is never settled.
\<close>

datatype error = NotReady | EvaluationTimeout | TypeError

datatype 'a outcome = Returns 'a | Throws error | Hangs

text \<open>
  The fields of \<open>ChessAI\<close> that the move selection reads or writes. \<open>worker\<close> says
  whether the worker exists; \<open>posted\<close> is what \<open>worker.postMessage\<close> has been given, oldest
  first. A handler closure is known by its identity, a number.
\<close>

record ChessAI =
  worker :: bool
  isReady :: bool
  messageHandlers :: "nat list"
  posted :: "string list"

definition postMessage :: "string \<Rightarrow> ChessAI \<Rightarrow> ChessAI" where
  "postMessage c ai = ai\<lparr>posted := posted ai @ [c]\<rparr>"

text \<open>A closure created now is none of the registered ones.\<close>

definition new_handler :: "nat list \<Rightarrow> nat" where
  "new_handler hs = Suc (fold max hs 0)"

text \<open>\<open>messageHandlers.push(h)\<close>, and \<open>indexOf\<close> followed by \<open>splice(index, 1)\<close>.\<close>

definition push_handler :: "nat \<Rightarrow> ChessAI \<Rightarrow> ChessAI" where
  "push_handler h ai = ai\<lparr>messageHandlers := messageHandlers ai @ [h]\<rparr>"

definition remove_handler :: "nat \<Rightarrow> ChessAI \<Rightarrow> ChessAI" where
  "remove_handler h ai = ai\<lparr>messageHandlers := remove1 h (messageHandlers ai)\<rparr>"

text \<open>
  The variables that the executor of one promise closes over: the flag \<open>resolved\<close>, the
  timer (\<open>armed\<close> until it is cleared or has fired) and the promise itself, \<open>Hangs\<close> while
  it is pending.
\<close>

record 'a request =
  resolved :: bool
  armed :: bool
  promise :: "'a outcome"

definition new_request :: "'a request" where
  "new_request = \<lparr>resolved = False, armed = False, promise = Hangs\<rparr>"

text \<open>Settling a promise a second time does nothing.\<close>

definition resolve :: "'a \<Rightarrow> 'a request \<Rightarrow> 'a request" where
  "resolve v rq = (if promise rq = Hangs then rq\<lparr>promise := Returns v\<rparr> else rq)"

definition reject :: "error \<Rightarrow> 'a request \<Rightarrow> 'a request" where
  "reject e rq = (if promise rq = Hangs then rq\<lparr>promise := Throws e\<rparr> else rq)"

definition setTimeout :: "'a request \<Rightarrow> 'a request" where
  "setTimeout rq = rq\<lparr>armed := True\<rparr>"

definition clearTimeout :: "'a request \<Rightarrow> 'a request" where
  "clearTimeout rq = rq\<lparr>armed := False\<rparr>"

subsection \<open>Delivery of messages and the timer\<close>

text \<open>
  \<open>worker.onmessage\<close> hands a line to every registered handler, so the handler \<open>h\<close> sees
  it only while \<open>h\<close> is in \<open>messageHandlers\<close>. The model follows the handler of one request
  and takes the other registered handlers to stay in place while a line is delivered.
  In the code a handler that removes itself inside \<open>forEach\<close> makes the handler after it
  miss that line; so what is proved below about the outcome of a request is stated for a
  service on which no other handler is registered, where \<open>forEach\<close> calls just \<open>h\<close>. The
  timer runs its callback once, unless it was cleared. An inbox is the list of lines the engine sends after the request, each
  with its arrival time in milliseconds since the request, in order of arrival; the
  handshake tokens, which \<open>onmessage\<close> keeps for itself, are not among them. The lines
  that arrive before the delay has passed are delivered, then the timer fires, then the
  later lines are delivered.
\<close>

type_synonym inbox = "(nat \<times> string) list"

type_synonym 'a pending = "ChessAI \<times> 'a request"

definition deliver :: "nat \<Rightarrow> (string \<Rightarrow> 'a pending \<Rightarrow> 'a pending) \<Rightarrow> string \<Rightarrow> 'a pending \<Rightarrow> 'a pending" where
  "deliver h handler message st =
     (if h \<in> set (messageHandlers (fst st)) then handler message st else st)"

definition fire :: "('a pending \<Rightarrow> 'a pending) \<Rightarrow> 'a pending \<Rightarrow> 'a pending" where
  "fire callback st =
     (if armed (snd st) then callback (fst st, (snd st)\<lparr>armed := False\<rparr>) else st)"

definition run_request ::
  "nat \<Rightarrow> (string \<Rightarrow> 'a pending \<Rightarrow> 'a pending) \<Rightarrow> ('a pending \<Rightarrow> 'a pending) \<Rightarrow> nat \<Rightarrow> inbox
     \<Rightarrow> 'a pending \<Rightarrow> 'a pending" where
  "run_request h handler callback delay inbox st =
     (let early = map snd (filter (\<lambda>tm. fst tm < delay) inbox);
          late = map snd (filter (\<lambda>tm. \<not> fst tm < delay) inbox);
          st1 = foldl (\<lambda>s m. deliver h handler m s) st early;
          st2 = fire callback st1
      in foldl (\<lambda>s m. deliver h handler m s) st2 late)"

subsection \<open>The engine search of \<open>getBestMove\<close>\<close>

text \<open>The handler and the timer callback of the search promise.\<close>

definition search_messageHandler :: "nat \<Rightarrow> string \<Rightarrow> AIMove option pending \<Rightarrow> AIMove option pending" where
  "search_messageHandler h message st =
     (case st of (ai, rq) \<Rightarrow>
        if startsWith message ''bestmove'' \<and> \<not> resolved rq then
          (let rq1 = rq\<lparr>resolved := True\<rparr>;
               ai1 = remove_handler h ai;
               rq2 = clearTimeout rq1
           in (ai1, resolve (parse_bestmove message) rq2))
        else (ai, rq))"

definition search_timeout :: "nat \<Rightarrow> AIMove option pending \<Rightarrow> AIMove option pending" where
  "search_timeout h st =
     (case st of (ai, rq) \<Rightarrow>
        if \<not> resolved rq then
          (let rq1 = rq\<lparr>resolved := True\<rparr>;
               ai1 = remove_handler h ai
           in (ai1, resolve None rq1))
        else (ai, rq))"

text \<open>A template literal prints a missing number as \<open>undefined\<close>.\<close>

definition show_num :: "int option \<Rightarrow> string" where
  "show_num x = (case x of None \<Rightarrow> ''undefined'' | Some n \<Rightarrow> show_int n)"

definition searchCommand :: "AISettings \<Rightarrow> string" where
  "searchCommand settings =
     (let c0 = ''go'';
          c1 = (if time settings \<noteq> None then c0 @ '' movetime '' @ show_num (time settings)
                else if depth settings \<noteq> None then c0 @ '' depth '' @ show_num (depth settings)
                else c0)
      in if nodes settings \<noteq> None then c1 @ '' nodes '' @ show_num (nodes settings) else c1)"

text \<open>The commands of a search, posted in this order once the handler and the timer are set.\<close>

definition post_search :: "string \<Rightarrow> AISettings \<Rightarrow> ChessAI \<Rightarrow> ChessAI" where
  "post_search fen settings ai =
     (let ai1 = (if truthy_flag (limitStrength settings) \<and> truthy_num (eloRating settings) then
                   postMessage (''setoption name UCI_Elo value '' @ show_num (eloRating settings))
                     (postMessage ''setoption name UCI_LimitStrength value true'' ai)
                 else postMessage ''setoption name UCI_LimitStrength value false'' ai);
          ai2 = (if skillLevel settings \<noteq> None then
                   postMessage (''setoption name Skill Level value '' @ show_num (skillLevel settings)) ai1
                 else ai1);
          ai3 = postMessage (''position fen '' @ fen) ai2
      in postMessage (searchCommand settings) ai3)"

text \<open>
  The part of \<open>getBestMove\<close> after the four special levels: the readiness guard and the
  awaited promise. The pacing delay that follows changes when the caller gets the move,
  not which move, and is left out.
\<close>

definition engine_search :: "string \<Rightarrow> AISettings \<Rightarrow> inbox \<Rightarrow> ChessAI \<Rightarrow> AIMove option outcome \<times> ChessAI" where
  "engine_search fen settings inbox ai =
     (if \<not> isReady ai \<or> \<not> worker ai then (Throws NotReady, ai)
      else
        (let h = new_handler (messageHandlers ai);
             ai1 = push_handler h ai;
             rq1 = setTimeout new_request;
             ai2 = post_search fen settings ai1;
             st = run_request h (search_messageHandler h) (search_timeout h) 5000 inbox (ai2, rq1)
         in (promise (snd st), fst st)))"

subsection \<open>The position evaluator\<close>

definition eval_messageHandler :: "nat \<Rightarrow> int \<Rightarrow> string \<Rightarrow> int pending \<Rightarrow> int pending" where
  "eval_messageHandler h d message st =
     (case st of (ai, rq) \<Rightarrow>
        if startsWith message ''info'' \<and> includes_str message ''score cp'' \<and> \<not> resolved rq then
          (case match_score_cp message of
             Some g \<Rightarrow>
               (let score = parseInt g in
                if includes_str message (''depth '' @ show_int d) then
                  (let rq1 = rq\<lparr>resolved := True\<rparr>;
                       ai1 = remove_handler h ai;
                       rq2 = clearTimeout rq1
                   in (ai1, resolve score rq2))
                else (ai, rq))
           | None \<Rightarrow> (ai, rq))
        else if startsWith message ''bestmove'' \<and> \<not> resolved rq then
          (let rq1 = rq\<lparr>resolved := True\<rparr>;
               ai1 = remove_handler h ai;
               rq2 = clearTimeout rq1
           in (ai1, resolve 0 rq2))
        else (ai, rq))"

definition eval_timeout :: "nat \<Rightarrow> int pending \<Rightarrow> int pending" where
  "eval_timeout h st =
     (case st of (ai, rq) \<Rightarrow>
        if \<not> resolved rq then
          (let rq1 = rq\<lparr>resolved := True\<rparr>;
               ai1 = remove_handler h ai
           in (ai1, reject EvaluationTimeout rq1))
        else (ai, rq))"

definition evaluatePosition :: "string \<Rightarrow> int \<Rightarrow> inbox \<Rightarrow> ChessAI \<Rightarrow> int outcome \<times> ChessAI" where
  "evaluatePosition fen d inbox ai =
     (if \<not> isReady ai \<or> \<not> worker ai then (Throws NotReady, ai)
      else
        (let h = new_handler (messageHandlers ai);
             ai1 = push_handler h ai;
             rq1 = setTimeout new_request;
             ai2 = postMessage (''position fen '' @ fen) ai1;
             ai3 = postMessage (''go depth '' @ show_int d) ai2;
             st = run_request h (eval_messageHandler h d) (eval_timeout h) 3000 inbox (ai3, rq1)
         in (promise (snd st), fst st)))"

subsection \<open>The rules library\<close>

text \<open>
  \<open>chess.js\<close> is not part of the repository. The selectors use six of its operations,
  which are the fields of a record over the type \<open>'g\<close> of its game objects: the
  constructor \<open>new Chess(fen)\<close>, \<open>fen()\<close>, \<open>moves({verbose: true})\<close>, the game after
  \<open>move(m)\<close>, \<open>board()\<close> and \<open>turn()\<close>. A board is read as \<open>board[rank][file]\<close> with both
  indices from 0 to 7. A verbose move has the three fields of an \<open>AIMove\<close> and more,
  of which \<open>san\<close> stands for the rest. The constructor throws on a FEN that it finds
  invalid; the model is about the FENs that it accepts.
\<close>

datatype color = White | Black

record piece =
  ptype :: char
  pcolor :: color

type_synonym board = "nat \<Rightarrow> nat \<Rightarrow> piece option"

record Move = AIMove +
  san :: string

record 'g Chess =
  chess_new :: "string \<Rightarrow> 'g"
  chess_fen :: "'g \<Rightarrow> string"
  chess_moves :: "'g \<Rightarrow> Move list"
  chess_move :: "'g \<Rightarrow> Move \<Rightarrow> 'g"
  chess_board :: "'g \<Rightarrow> board"
  chess_turn :: "'g \<Rightarrow> color"

text \<open>\<open>{from: move.from, to: move.to, promotion: move.promotion}\<close>\<close>

definition to_AIMove :: "Move \<Rightarrow> AIMove" where
  "to_AIMove m = \<lparr>from_sq = from_sq m, to_sq = to_sq m, promotion = promotion m\<rparr>"

subsection \<open>The random selector\<close>

text \<open>
  \<open>r\<close> is the number that \<open>Math.random()\<close> gives, which lies in \<open>[0, 1)\<close>. Reading a field
  of the \<open>undefined\<close> that an index outside the array yields raises a \<open>TypeError\<close>.
\<close>

definition random_element :: "real \<Rightarrow> 'a list \<Rightarrow> 'a option" where
  "random_element r xs =
     (let i = \<lfloor>r * real (length xs)\<rfloor>
      in if 0 \<le> i \<and> i < int (length xs) then Some (xs ! nat i) else None)"

definition random_move :: "real \<Rightarrow> Move list \<Rightarrow> AIMove option outcome" where
  "random_move r legalMoves =
     (case random_element r legalMoves of
        None \<Rightarrow> Throws TypeError
      | Some randomMove \<Rightarrow> Returns (Some (to_AIMove randomMove)))"

definition getRandomMove :: "'g Chess \<Rightarrow> string \<Rightarrow> real \<Rightarrow> AIMove option outcome" where
  "getRandomMove ch fen r =
     (let testGame = chess_new ch fen;
          legalMoves = chess_moves ch testGame
      in if length legalMoves = 0 then Returns None else random_move r legalMoves)"

subsection \<open>Huddle and Swarm\<close>

text \<open>The squares in the order in which the two nested for statements visit them, as pairs \<open>(file, rank)\<close>.\<close>

definition scan_order :: "(nat \<times> nat) list" where
  "scan_order = concat (map (\<lambda>rank. map (\<lambda>file. (file, rank)) [0..<8]) [0..<8])"

text \<open>The first king of the colour in scan order, where both for statements break.\<close>

definition find_king :: "board \<Rightarrow> color \<Rightarrow> (nat \<times> nat) option" where
  "find_king b c =
     List.find (\<lambda>(file, rank).
        case b rank file of
          None \<Rightarrow> False
        | Some p \<Rightarrow> ptype p = CHR ''k'' \<and> pcolor p = c) scan_order"

text \<open>\<open>String.fromCharCode(97 + file) + (rank + 1).toString()\<close>\<close>

definition square_name :: "nat \<Rightarrow> nat \<Rightarrow> string" where
  "square_name file rank = char_of (97 + file) # show_nat (rank + 1)"

definition getChebyshevDistance :: "string \<Rightarrow> nat \<times> nat \<Rightarrow> int" where
  "getChebyshevDistance square target =
     (let squareFile = int (of_char (square ! 0)) - 97;
          squareRank = parseInt [square ! 1] - 1;
          fileDiff = \<bar>squareFile - int (fst target)\<bar>;
          rankDiff = \<bar>squareRank - int (snd target)\<bar>
      in max fileDiff rankDiff)"

text \<open>
  The body shared by \<open>getTotalDistanceToOurKing\<close> and \<open>getTotalDistanceToOpponentKing\<close>:
  the distances of the pieces of \<open>currentTurn\<close> on a board to a fixed square.
\<close>

definition total_distance :: "board \<Rightarrow> color \<Rightarrow> nat \<times> nat \<Rightarrow> int" where
  "total_distance boardState currentTurn kingPos =
     foldl (\<lambda>totalDistance (file, rank).
        case boardState rank file of
          None \<Rightarrow> totalDistance
        | Some p \<Rightarrow>
            if pcolor p = currentTurn then
              totalDistance + getChebyshevDistance (square_name file rank) kingPos
            else totalDistance) 0 scan_order"

definition getTotalDistanceToOurKing :: "'g Chess \<Rightarrow> color \<Rightarrow> nat \<times> nat \<Rightarrow> 'g \<Rightarrow> int" where
  "getTotalDistanceToOurKing ch currentTurn ourKingPos gameState =
     total_distance (chess_board ch gameState) currentTurn ourKingPos"

definition getTotalDistanceToOpponentKing :: "'g Chess \<Rightarrow> color \<Rightarrow> nat \<times> nat \<Rightarrow> 'g \<Rightarrow> int" where
  "getTotalDistanceToOpponentKing ch currentTurn opponentKingPos gameState =
     total_distance (chess_board ch gameState) currentTurn opponentKingPos"

text \<open>A JavaScript number that starts as \<open>Infinity\<close>, and \<open>x < y\<close> on it.\<close>

datatype 'a number = Infinity | Finite 'a

fun less_number :: "'a::ord \<Rightarrow> 'a number \<Rightarrow> bool" where
  "less_number x Infinity = True"
| "less_number x (Finite y) = (x < y)"

text \<open>
  The selection loop of both selectors: \<open>distance_after mv\<close> is the total distance on
  the position that the move leads to.
\<close>

fun closest_loop :: "(Move \<Rightarrow> int) \<Rightarrow> Move list \<Rightarrow> Move \<times> int number \<Rightarrow> Move \<times> int number" where
  "closest_loop distance_after [] best = best"
| "closest_loop distance_after (mv # rest) (bestMove, bestTotalDistance) =
     (let totalDistance = distance_after mv
      in if less_number totalDistance bestTotalDistance then
           closest_loop distance_after rest (mv, Finite totalDistance)
         else closest_loop distance_after rest (bestMove, bestTotalDistance))"

definition huddle_distance :: "'g Chess \<Rightarrow> 'g \<Rightarrow> color \<Rightarrow> nat \<times> nat \<Rightarrow> Move \<Rightarrow> int" where
  "huddle_distance ch testGame currentTurn ourKingPos mv =
     (let testPosition = chess_move ch (chess_new ch (chess_fen ch testGame)) mv
      in getTotalDistanceToOurKing ch currentTurn ourKingPos testPosition)"

definition getHuddleMove :: "'g Chess \<Rightarrow> string \<Rightarrow> real \<Rightarrow> AIMove option outcome" where
  "getHuddleMove ch fen r =
     (let testGame = chess_new ch fen;
          legalMoves = chess_moves ch testGame
      in case legalMoves of
           [] \<Rightarrow> Returns None
         | first # _ \<Rightarrow>
             (let currentTurn = chess_turn ch testGame;
                  b = chess_board ch testGame
              in case find_king b currentTurn of
                   None \<Rightarrow> random_move r legalMoves
                 | Some ourKingPos \<Rightarrow>
                     (let best = closest_loop (huddle_distance ch testGame currentTurn ourKingPos)
                                   legalMoves (first, Infinity)
                      in Returns (Some (to_AIMove (fst best))))))"

definition swarm_distance :: "'g Chess \<Rightarrow> 'g \<Rightarrow> color \<Rightarrow> nat \<times> nat \<Rightarrow> Move \<Rightarrow> int" where
  "swarm_distance ch testGame currentTurn opponentKingPos mv =
     (let testPosition = chess_move ch (chess_new ch (chess_fen ch testGame)) mv
      in getTotalDistanceToOpponentKing ch currentTurn opponentKingPos testPosition)"

definition getSwarmMove :: "'g Chess \<Rightarrow> string \<Rightarrow> real \<Rightarrow> AIMove option outcome" where
  "getSwarmMove ch fen r =
     (let testGame = chess_new ch fen;
          legalMoves = chess_moves ch testGame
      in case legalMoves of
           [] \<Rightarrow> Returns None
         | first # _ \<Rightarrow>
             (let currentTurn = chess_turn ch testGame;
                  opponentColor = (if currentTurn = White then Black else White);
                  b = chess_board ch testGame
              in case find_king b opponentColor of
                   None \<Rightarrow> random_move r legalMoves
                 | Some opponentKingPos \<Rightarrow>
                     (let best = closest_loop (swarm_distance ch testGame currentTurn opponentKingPos)
                                   legalMoves (first, Infinity)
                      in Returns (Some (to_AIMove (fst best))))))"

subsection \<open>The worst-move selector\<close>

text \<open>\<open>settings.depth || 8\<close>\<close>

definition depth_or_8 :: "AISettings \<Rightarrow> int" where
  "depth_or_8 settings = (case depth settings of None \<Rightarrow> 8 | Some n \<Rightarrow> if n = 0 then 8 else n)"

text \<open>
  The loop over the legal moves. \<open>inb k\<close> is the inbox of the evaluation of candidate
  number \<open>k\<close>. An evaluation that is rejected is caught and the candidate is skipped; one
  that never settles leaves the whole call pending.
\<close>

fun worst_loop ::
  "'g Chess \<Rightarrow> string \<Rightarrow> int \<Rightarrow> (nat \<Rightarrow> inbox) \<Rightarrow> nat \<Rightarrow> Move list \<Rightarrow> AIMove option \<times> int number \<Rightarrow> ChessAI
     \<Rightarrow> (AIMove option \<times> int number) outcome \<times> ChessAI" where
  "worst_loop ch fen d inb k [] worst ai = (Returns worst, ai)"
| "worst_loop ch fen d inb k (mv # rest) (worstMove, worstScore) ai =
     (let testPosition = chess_move ch (chess_new ch fen) mv;
          newFen = chess_fen ch testPosition
      in case evaluatePosition newFen d (inb k) ai of
           (Returns score, ai') \<Rightarrow>
             if less_number score worstScore then
               worst_loop ch fen d inb (Suc k) rest (Some (to_AIMove mv), Finite score) ai'
             else worst_loop ch fen d inb (Suc k) rest (worstMove, worstScore) ai'
         | (Throws e, ai') \<Rightarrow> worst_loop ch fen d inb (Suc k) rest (worstMove, worstScore) ai'
         | (Hangs, ai') \<Rightarrow> (Hangs, ai'))"

definition getWorstMove ::
  "'g Chess \<Rightarrow> string \<Rightarrow> AISettings \<Rightarrow> real \<Rightarrow> (nat \<Rightarrow> inbox) \<Rightarrow> ChessAI \<Rightarrow> AIMove option outcome \<times> ChessAI" where
  "getWorstMove ch fen settings r inb ai =
     (if \<not> isReady ai \<or> \<not> worker ai then (Throws NotReady, ai)
      else
        (let testGame = chess_new ch fen;
             legalMoves = chess_moves ch testGame
         in case legalMoves of
              [] \<Rightarrow> (Returns None, ai)
            | [mv] \<Rightarrow> (Returns (Some (to_AIMove mv)), ai)
            | _ \<Rightarrow>
                (case worst_loop ch fen (depth_or_8 settings) inb 0 legalMoves (None, Infinity) ai of
                   (Returns (worstMove, worstScore), ai') \<Rightarrow>
                     (case worstMove of
                        None \<Rightarrow> (random_move r legalMoves, ai')
                      | Some m \<Rightarrow> (Returns (Some m), ai'))
                 | (Throws e, ai') \<Rightarrow> (Throws e, ai')
                 | (Hangs, ai') \<Rightarrow> (Hangs, ai'))))"

subsection \<open>The dispatcher\<close>

text \<open>
  \<open>getBestMove\<close> branches on the level alone. The pacing delay after each branch is left
  out, as in the search. The search reads the inbox \<open>inb 0\<close>.
\<close>

definition getBestMove ::
  "'g Chess \<Rightarrow> string \<Rightarrow> AISettings \<Rightarrow> real \<Rightarrow> (nat \<Rightarrow> inbox) \<Rightarrow> ChessAI \<Rightarrow> AIMove option outcome \<times> ChessAI" where
  "getBestMove ch fen settings r inb ai =
     (if level settings = worstfish then getWorstMove ch fen settings r inb ai
      else if level settings = random then (getRandomMove ch fen r, ai)
      else if level settings = huddle then (getHuddleMove ch fen r, ai)
      else if level settings = swarm then (getSwarmMove ch fen r, ai)
      else engine_search fen settings (inb 0) ai)"

subsection \<open>Example positions\<close>

text \<open>
  The answers of \<open>chess.js\<close> on three positions, for evaluating the selectors on concrete
  inputs. A game object is its FEN text. The board is read off the placement field of
  the FEN, whose first row is rank 8, as \<open>board()\<close> lists it, and the side to move off
  the second field. The legal moves are listed in the order in which \<open>chess.js\<close> generates
  them (squares from a8 to h1, pawn pushes before the king's steps).
\<close>

fun split_on :: "char \<Rightarrow> string \<Rightarrow> string list" where
  "split_on sep [] = [[]]"
| "split_on sep (c # cs) =
     (if c = sep then [] # split_on sep cs
      else (case split_on sep cs of [] \<Rightarrow> [[c]] | t # ts \<Rightarrow> (c # t) # ts))"

definition fen_piece :: "char \<Rightarrow> piece option" where
  "fen_piece c =
     (case map_of (zip ''PNBRQK'' ''pnbrqk'') c of
        Some l \<Rightarrow> Some \<lparr>ptype = l, pcolor = White\<rparr>
      | None \<Rightarrow> if c \<in> set ''pnbrqk'' then Some \<lparr>ptype = c, pcolor = Black\<rparr> else None)"

definition fen_row :: "string \<Rightarrow> piece option list" where
  "fen_row row = concat (map (\<lambda>c. if is_digit c then replicate (digit_val c) None else [fen_piece c]) row)"

definition fen_rows :: "string \<Rightarrow> piece option list list" where
  "fen_rows fen = map fen_row (split_on CHR ''/'' (hd (split_on CHR '' '' fen)))"

definition fen_board :: "string \<Rightarrow> board" where
  "fen_board fen rank file =
     (case at_index (fen_rows fen) rank of
        None \<Rightarrow> None
      | Some row \<Rightarrow> (case at_index row file of None \<Rightarrow> None | Some sq \<Rightarrow> sq))"

definition fen_turn :: "string \<Rightarrow> color" where
  "fen_turn fen = (if at_index (split_on CHR '' '' fen) 1 = Some ''b'' then Black else White)"

definition mk_move :: "string \<Rightarrow> string \<Rightarrow> string \<Rightarrow> Move" where
  "mk_move f t s = \<lparr>from_sq = f, to_sq = t, promotion = None, san = s\<rparr>"

text \<open>
  White king a1 and pawn h2 against the bare king h8; white king a1 with a single legal
  move; white king a1 stalemated by the queen b3.
\<close>

definition pawn_fen :: string where
  "pawn_fen = ''7k/8/8/8/8/8/7P/K7 w - - 0 1''"

definition single_fen :: string where
  "single_fen = ''1r6/8/8/8/8/2k5/8/K7 w - - 0 1''"

definition stalemate_fen :: string where
  "stalemate_fen = ''7k/8/8/8/8/1q6/8/K7 w - - 0 1''"

definition example_moves :: "string \<Rightarrow> Move list" where
  "example_moves g =
     (if g = pawn_fen then
        [mk_move ''h2'' ''h3'' ''h3'', mk_move ''h2'' ''h4'' ''h4'', mk_move ''a1'' ''a2'' ''Ka2'',
         mk_move ''a1'' ''b2'' ''Kb2'', mk_move ''a1'' ''b1'' ''Kb1'']
      else if g = single_fen then [mk_move ''a1'' ''a2'' ''Ka2'']
      else [])"

definition example_move :: "string \<Rightarrow> Move \<Rightarrow> string" where
  "example_move g m =
     (if g = pawn_fen then
        (if san m = ''h3'' then ''7k/8/8/8/8/7P/8/K7 b - - 0 1''
         else if san m = ''h4'' then ''7k/8/8/8/7P/8/8/K7 b - - 0 1''
         else if san m = ''Ka2'' then ''7k/8/8/8/8/8/K6P/8 b - - 1 1''
         else if san m = ''Kb2'' then ''7k/8/8/8/8/8/1K5P/8 b - - 1 1''
         else if san m = ''Kb1'' then ''7k/8/8/8/8/8/7P/1K6 b - - 1 1''
         else g)
      else if g = single_fen then
        (if san m = ''Ka2'' then ''1r6/8/8/8/8/2k5/K7/8 b - - 1 1'' else g)
      else g)"

definition example_chess :: "string Chess" where
  "example_chess = \<lparr>chess_new = (\<lambda>fen. fen), chess_fen = (\<lambda>g. g), chess_moves = example_moves,
     chess_move = example_move, chess_board = fen_board, chess_turn = fen_turn\<rparr>"

definition ready_ai :: ChessAI where
  "ready_ai = \<lparr>worker = True, isReady = True, messageHandlers = [], posted = []\<rparr>"

subsection \<open>What a request settles with\<close>

text \<open>
  Both message handlers have one shape: a line either leaves the request alone or, if
  the request is not resolved yet, resolves it with a value, removes the handler and
  clears the timer. \<open>search_react\<close> and \<open>eval_react\<close> give that value for the two handlers,
  \<open>first_reaction\<close> the first one in a list of lines, \<open>before\<close> the lines that arrive
  before a delay has passed.
\<close>

definition search_react :: "string \<Rightarrow> AIMove option option" where
  "search_react m = (if startsWith m ''bestmove'' then Some (parse_bestmove m) else None)"

definition eval_react :: "int \<Rightarrow> string \<Rightarrow> int option" where
  "eval_react d m =
     (if startsWith m ''info'' \<and> includes_str m ''score cp'' then
        (case match_score_cp m of
           Some g \<Rightarrow> if includes_str m (''depth '' @ show_int d) then Some (parseInt g) else None
         | None \<Rightarrow> None)
      else if startsWith m ''bestmove'' then Some 0 else None)"

fun first_reaction :: "(string \<Rightarrow> 'a option) \<Rightarrow> string list \<Rightarrow> 'a option" where
  "first_reaction react [] = None"
| "first_reaction react (m # ms) = (case react m of Some v \<Rightarrow> Some v | None \<Rightarrow> first_reaction react ms)"

definition before :: "nat \<Rightarrow> inbox \<Rightarrow> string list" where
  "before delay inbox = map snd (filter (\<lambda>tm. fst tm < delay) inbox)"

definition settling :: "nat \<Rightarrow> (string \<Rightarrow> 'a option) \<Rightarrow> string \<Rightarrow> 'a pending \<Rightarrow> 'a pending" where
  "settling h react message st =
     (case react message of
        None \<Rightarrow> st
      | Some v \<Rightarrow>
          if resolved (snd st) then st
          else (remove_handler h (fst st), resolve v (clearTimeout ((snd st)\<lparr>resolved := True\<rparr>))))"

text \<open>
  The test under which the handler of an evaluation resolves with the score of a line
  (lines 349 to 355 of the source): an \<open>info\<close> line with a score in which the text
  \<open>depth d\<close> occurs, wherever it occurs.
\<close>

definition handler_accepts :: "int \<Rightarrow> string \<Rightarrow> bool" where
  "handler_accepts d m \<longleftrightarrow>
     startsWith m ''info'' \<and> includes_str m ''score cp'' \<and> match_score_cp m \<noteq> None
       \<and> includes_str m (''depth '' @ show_int d)"

text \<open>The state of a request that is still waiting, and the one it is settled into.\<close>

definition waiting :: "ChessAI \<Rightarrow> nat \<Rightarrow> 'a pending" where
  "waiting ai h = (push_handler h ai, setTimeout new_request)"

definition settled :: "ChessAI \<Rightarrow> 'a outcome \<Rightarrow> 'a pending" where
  "settled ai out = (ai, \<lparr>resolved = True, armed = False, promise = out\<rparr>)"

definition eval_commands :: "string \<Rightarrow> int \<Rightarrow> string list" where
  "eval_commands fen d = [''position fen '' @ fen, ''go depth '' @ show_int d]"

definition eval_result :: "int \<Rightarrow> inbox \<Rightarrow> int outcome" where
  "eval_result d inbox =
     (case first_reaction (eval_react d) (before 3000 inbox) of
        None \<Rightarrow> Throws EvaluationTimeout
      | Some v \<Rightarrow> Returns v)"

definition search_result :: "inbox \<Rightarrow> AIMove option outcome" where
  "search_result inbox =
     (case first_reaction search_react (before 5000 inbox) of
        None \<Rightarrow> Returns None
      | Some v \<Rightarrow> Returns v)"

subsection \<open>Notions of the specification\<close>

text \<open>
  The depth that an \<open>info\<close> line reports, as the protocol has it: the number that follows
  the token \<open>depth\<close>.
\<close>

fun token_after :: "string \<Rightarrow> string list \<Rightarrow> string option" where
  "token_after k (a # b # rest) = (if a = k then Some b else token_after k (b # rest))"
| "token_after k _ = None"

definition reported_depth :: "string \<Rightarrow> int option" where
  "reported_depth m = map_option parseInt (token_after ''depth'' (split_space m))"

text \<open>
  A depth-matching score line in the words of the specification: an \<open>info\<close> line with a
  centipawn score that reports the target depth.
\<close>

definition score_at_depth :: "int \<Rightarrow> string \<Rightarrow> bool" where
  "score_at_depth d m \<longleftrightarrow>
     startsWith m ''info'' \<and> match_score_cp m \<noteq> None \<and> reported_depth m = Some d"

text \<open>
  Two lines of a search that has not reached depth 8, as an engine prints them, with the
  greatest depth of a variation in the field \<open>seldepth\<close>.
\<close>

definition shallow_lines :: inbox where
  "shallow_lines =
     [(5, ''info depth 4 seldepth 8 multipv 1 score cp -12 nodes 640 pv e7e5''),
      (9, ''info depth 5 seldepth 9 multipv 1 score cp 3 nodes 1500 pv e7e5'')]"

text \<open>
  \<open>chess.js\<close> 1.x checks the FEN in \<open>new Chess(fen)\<close> and throws unless the placement
  field has a white and a black king. On the board of a game that a selector has built,
  both kings are therefore found.
\<close>

definition both_kings :: "'g Chess \<Rightarrow> string \<Rightarrow> bool" where
  "both_kings ch fen \<longleftrightarrow>
     find_king (chess_board ch (chess_new ch fen)) White \<noteq> None
       \<and> find_king (chess_board ch (chess_new ch fen)) Black \<noteq> None"

text \<open>
  The commands of a search in the words of the specification: the strength option or
  options, the skill level if there is one, the position, and one \<open>go\<close> with the time
  budget before the depth and the node limit after either. \<open>limited\<close> says whether the
  strength is limited. The specification limits it when \<open>limitStrength\<close> is set and a
  rating is present, which is \<open>claimed_commands\<close>.
\<close>

definition commands_in_order :: "bool \<Rightarrow> string \<Rightarrow> AISettings \<Rightarrow> string list" where
  "commands_in_order limited fen settings =
     (if limited then
        [''setoption name UCI_LimitStrength value true'',
         ''setoption name UCI_Elo value '' @ show_num (eloRating settings)]
      else [''setoption name UCI_LimitStrength value false''])
     @ (case skillLevel settings of
          None \<Rightarrow> []
        | Some n \<Rightarrow> [''setoption name Skill Level value '' @ show_int n])
     @ [''position fen '' @ fen]
     @ [''go''
          @ (case time settings of
               Some ms \<Rightarrow> '' movetime '' @ show_int ms
             | None \<Rightarrow> (case depth settings of Some n \<Rightarrow> '' depth '' @ show_int n | None \<Rightarrow> []))
          @ (case nodes settings of Some n \<Rightarrow> '' nodes '' @ show_int n | None \<Rightarrow> [])]"

definition claimed_commands :: "string \<Rightarrow> AISettings \<Rightarrow> string list" where
  "claimed_commands fen settings =
     commands_in_order (limitStrength settings = Some True \<and> eloRating settings \<noteq> None) fen settings"

definition zero_rating :: AISettings where
  "zero_rating = (no_settings custom)\<lparr>limitStrength := Some True, eloRating := Some 0\<rparr>"

text \<open>The service before \<open>initialize()\<close> has run.\<close>

definition idle_ai :: ChessAI where
  "idle_ai = \<lparr>worker = False, isReady = False, messageHandlers = [], posted = []\<rparr>"

text \<open>A returned move has the three fields of a legal move.\<close>

definition same_move :: "AIMove \<Rightarrow> Move \<Rightarrow> bool" where
  "same_move mv m \<longleftrightarrow> from_sq mv = from_sq m \<and> to_sq mv = to_sq m \<and> promotion mv = promotion m"

text \<open>
  The Huddle measure in the words of the specification: the distances of the mover's
  pieces, after the move, to the square of the mover's king after the move.
\<close>

definition claimed_huddle_distance :: "'g Chess \<Rightarrow> string \<Rightarrow> Move \<Rightarrow> int option" where
  "claimed_huddle_distance ch fen mv =
     (let mover = chess_turn ch (chess_new ch fen);
          after = chess_board ch (chess_move ch (chess_new ch fen) mv)
      in case find_king after mover of
           None \<Rightarrow> None
         | Some kingSquare \<Rightarrow> Some (total_distance after mover kingSquare))"





section \<open>Properties\<close>

subsection \<open>Requests\<close>

lemma search_handler_settling: "search_messageHandler h = settling h search_react"
  by (intro ext) (auto simp: search_messageHandler_def settling_def search_react_def Let_def split: prod.splits)

lemma eval_handler_settling: "eval_messageHandler h d = settling h (eval_react d)"
  by (intro ext) (auto simp: eval_messageHandler_def settling_def eval_react_def Let_def split: prod.splits option.splits)

lemma fold_max_upper: "a \<le> fold max hs a \<and> (\<forall>x\<in>set hs. x \<le> fold max hs (a::nat))"
proof (induction hs arbitrary: a)
  case Nil
  show ?case by simp
next
  case (Cons h hs)
  have ih: "max h a \<le> fold max hs (max h a) \<and> (\<forall>x\<in>set hs. x \<le> fold max hs (max h a))"
    by (rule Cons.IH)
  then have "a \<le> fold max hs (max h a)" and "h \<le> fold max hs (max h a)"
    by simp_all
  with ih show ?case by simp
qed

lemma new_handler_fresh: "new_handler hs \<notin> set hs"
proof
  assume "new_handler hs \<in> set hs"
  then have "new_handler hs \<le> fold max hs 0"
    using fold_max_upper [of 0 hs] by blast
  then show False by (simp add: new_handler_def)
qed

lemma deliver_unregistered:
  "h \<notin> set (messageHandlers (fst st)) \<Longrightarrow> foldl (\<lambda>s m. deliver h handler m s) st ms = st"
  by (induction ms) (simp_all add: deliver_def)

lemma settling_waiting:
  assumes "h \<notin> set (messageHandlers ai)"
  shows "settling h react m (waiting ai h) =
           (case react m of None \<Rightarrow> waiting ai h | Some v \<Rightarrow> settled ai (Returns v))"
  using assms
  by (auto simp: settling_def waiting_def settled_def push_handler_def remove_handler_def
      setTimeout_def clearTimeout_def new_request_def resolve_def remove1_append split: option.splits)

lemma deliver_all_waiting:
  assumes "h \<notin> set (messageHandlers ai)"
  shows "foldl (\<lambda>s m. deliver h (settling h react) m s) (waiting ai h) ms =
           (case first_reaction react ms of None \<Rightarrow> waiting ai h | Some v \<Rightarrow> settled ai (Returns v))"
proof (induction ms)
  case Nil
  show ?case by simp
next
  case (Cons m ms)
  have reg: "h \<in> set (messageHandlers (fst (waiting ai h :: 'a pending)))"
    by (simp add: waiting_def push_handler_def)
  show ?case
  proof (cases "react m")
    case None
    then show ?thesis
      using Cons.IH reg by (simp add: deliver_def settling_waiting [OF assms])
  next
    case (Some v)
    have gone: "h \<notin> set (messageHandlers (fst (settled ai (Returns v) :: 'a pending)))"
      using assms by (simp add: settled_def)
    show ?thesis
      using Some reg deliver_unregistered [OF gone]
      by (simp add: deliver_def settling_waiting [OF assms])
  qed
qed


lemma fire_settled: "fire callback (settled ai out) = settled ai out"
  by (simp add: fire_def settled_def)

lemma run_request_waiting:
  assumes fresh: "h \<notin> set (messageHandlers ai)"
    and late: "fire callback (waiting ai h) = settled ai out"
  shows "run_request h (settling h react) callback delay inbox (waiting ai h) =
           settled ai (case first_reaction react (before delay inbox) of
                         None \<Rightarrow> out | Some v \<Rightarrow> Returns v)"
proof -
  have gone: "h \<notin> set (messageHandlers (fst (settled ai x :: 'a pending)))" for x
    using fresh by (simp add: settled_def)
  show ?thesis
  proof (cases "first_reaction react (before delay inbox)")
    case None
    then show ?thesis
      using deliver_all_waiting [OF fresh, of react "before delay inbox"] late
        deliver_unregistered [OF gone]
      by (simp add: run_request_def before_def Let_def)
  next
    case (Some v)
    then show ?thesis
      using deliver_all_waiting [OF fresh, of react "before delay inbox"]
        deliver_unregistered [OF gone]
      by (simp add: run_request_def before_def Let_def fire_settled)
  qed
qed

lemma fire_search_timeout:
  "h \<notin> set (messageHandlers ai) \<Longrightarrow> fire (search_timeout h) (waiting ai h) = settled ai (Returns None)"
  by (simp add: fire_def search_timeout_def waiting_def settled_def push_handler_def
      remove_handler_def setTimeout_def new_request_def resolve_def remove1_append)

lemma fire_eval_timeout:
  "h \<notin> set (messageHandlers ai) \<Longrightarrow>
     fire (eval_timeout h) (waiting ai h) = settled ai (Throws EvaluationTimeout)"
  by (simp add: fire_def eval_timeout_def waiting_def settled_def push_handler_def
      remove_handler_def setTimeout_def new_request_def reject_def remove1_append)

lemma post_push: "postMessage c (push_handler h ai) = push_handler h (postMessage c ai)"
  by (simp add: postMessage_def push_handler_def)

lemma post_search_push: "post_search fen settings (push_handler h ai) = push_handler h (post_search fen settings ai)"
  by (simp add: post_search_def Let_def post_push)

lemma handlers_post [simp]: "messageHandlers (postMessage c ai) = messageHandlers ai"
  by (simp add: postMessage_def)

lemma handlers_post_search [simp]: "messageHandlers (post_search fen settings ai) = messageHandlers ai"
  by (simp add: post_search_def Let_def)

lemma evaluatePosition_ready:
  assumes "isReady ai" "worker ai"
  shows "evaluatePosition fen d inbox ai =
           (eval_result d inbox, ai\<lparr>posted := posted ai @ eval_commands fen d\<rparr>)"
proof -
  define h where "h = new_handler (messageHandlers ai)"
  define ai' where
    "ai' = postMessage (''go depth '' @ show_int d) (postMessage (''position fen '' @ fen) ai)"
  have fresh: "h \<notin> set (messageHandlers ai')"
    by (simp add: h_def ai'_def new_handler_fresh)
  have "evaluatePosition fen d inbox ai =
      (let st = run_request h (settling h (eval_react d)) (eval_timeout h) 3000 inbox (waiting ai' h)
       in (promise (snd st), fst st))"
    using assms
    by (simp add: evaluatePosition_def Let_def eval_handler_settling post_push waiting_def h_def ai'_def)
  also have "\<dots> = (eval_result d inbox, ai')"
    unfolding run_request_waiting [OF fresh fire_eval_timeout [OF fresh]]
    by (simp add: settled_def eval_result_def split: option.splits)
  also have "ai' = ai\<lparr>posted := posted ai @ eval_commands fen d\<rparr>"
    by (simp add: ai'_def postMessage_def eval_commands_def)
  finally show ?thesis .
qed

lemma engine_search_ready:
  assumes "isReady ai" "worker ai"
  shows "engine_search fen settings inbox ai = (search_result inbox, post_search fen settings ai)"
proof -
  define h where "h = new_handler (messageHandlers ai)"
  define ai' where "ai' = post_search fen settings ai"
  have fresh: "h \<notin> set (messageHandlers ai')"
    by (simp add: h_def ai'_def new_handler_fresh)
  have "engine_search fen settings inbox ai =
      (let st = run_request h (settling h search_react) (search_timeout h) 5000 inbox (waiting ai' h)
       in (promise (snd st), fst st))"
    using assms
    by (simp add: engine_search_def Let_def search_handler_settling post_search_push waiting_def
        h_def ai'_def)
  also have "\<dots> = (search_result inbox, ai')"
    unfolding run_request_waiting [OF fresh fire_search_timeout [OF fresh]]
    by (simp add: settled_def search_result_def split: option.splits)
  finally show ?thesis by (simp add: ai'_def)
qed


subsection \<open>Parsing the reply of a search\<close>

lemma split_space_token:
  "CHR '' '' \<notin> set tok \<Longrightarrow> split_space (tok @ CHR '' '' # rest) = tok # split_space rest"
  by (induction tok) auto

lemma split_space_last: "CHR '' '' \<notin> set tok \<Longrightarrow> split_space tok = [tok]"
  by (induction tok) auto

lemma parse_bestmove_token:
  assumes "tok \<noteq> []" "tok \<noteq> ''(none)''" "CHR '' '' \<notin> set tok"
  shows "parse_bestmove (''bestmove '' @ tok @ CHR '' '' # rest) =
           Some \<lparr>from_sq = take 2 tok, to_sq = take 2 (drop 2 tok),
                 promotion = (if 4 < length tok then Some (drop 4 tok) else None)\<rparr>"
    and "parse_bestmove (''bestmove '' @ tok) =
           Some \<lparr>from_sq = take 2 tok, to_sq = take 2 (drop 2 tok),
                 promotion = (if 4 < length tok then Some (drop 4 tok) else None)\<rparr>"
proof -
  have a: "split_space (''bestmove '' @ tok @ CHR '' '' # rest) = ''bestmove'' # tok # split_space rest"
    using split_space_token [of "''bestmove''" "tok @ CHR '' '' # rest"]
      split_space_token [OF assms(3), of rest] by simp
  have b: "split_space (''bestmove '' @ tok) = [''bestmove'', tok]"
    using split_space_token [of "''bestmove''" tok] split_space_last [OF assms(3)] by simp
  show "parse_bestmove (''bestmove '' @ tok @ CHR '' '' # rest) =
           Some \<lparr>from_sq = take 2 tok, to_sq = take 2 (drop 2 tok),
                 promotion = (if 4 < length tok then Some (drop 4 tok) else None)\<rparr>"
    using assms(1,2) unfolding parse_bestmove_def a by (simp add: at_index_def substring_def)
  show "parse_bestmove (''bestmove '' @ tok) =
           Some \<lparr>from_sq = take 2 tok, to_sq = take 2 (drop 2 tok),
                 promotion = (if 4 < length tok then Some (drop 4 tok) else None)\<rparr>"
    using assms(1,2) unfolding parse_bestmove_def b by (simp add: at_index_def substring_def)
qed

lemma search_single_line:
  assumes "isReady ai" "worker ai" "messageHandlers ai = []" "t < 5000" "startsWith line ''bestmove''"
  shows "fst (engine_search fen settings [(t, line)] ai) = Returns (parse_bestmove line)"
  using assms by (simp add: engine_search_ready search_result_def before_def search_react_def)

text \<open>
  Claim C4. The handler of a search takes the second blank-separated token of a
  \<open>bestmove\<close> line as the move: its first two characters are the origin square, the next
  two the target square, and what follows, if anything, the promotion. So
  \<open>bestmove e7e8q ponder d7d6\<close> gives the move e7 to e8 promoting to q, while
  \<open>bestmove (none)\<close> and a \<open>bestmove\<close> line without a move token give no move; and a search
  on a ready engine, with no other request pending, whose reply is such a line resolves
  with what the parse gives.
\<close>

theorem bestmove_parsing:
  "parse_bestmove ''bestmove e7e8q ponder d7d6'' =
      Some \<lparr>from_sq = ''e7'', to_sq = ''e8'', promotion = Some ''q''\<rparr>
   \<and> parse_bestmove ''bestmove (none)'' = None
   \<and> parse_bestmove ''bestmove'' = None
   \<and> (tok \<noteq> [] \<and> tok \<noteq> ''(none)'' \<and> CHR '' '' \<notin> set tok \<longrightarrow>
        parse_bestmove (''bestmove '' @ tok) =
          Some \<lparr>from_sq = take 2 tok, to_sq = take 2 (drop 2 tok),
                promotion = (if 4 < length tok then Some (drop 4 tok) else None)\<rparr>
        \<and> parse_bestmove (''bestmove '' @ tok @ CHR '' '' # rest) = parse_bestmove (''bestmove '' @ tok))
   \<and> (isReady ai \<and> worker ai \<and> messageHandlers ai = [] \<and> t < 5000
        \<and> startsWith line ''bestmove'' \<longrightarrow>
        fst (engine_search fen settings [(t, line)] ai) = Returns (parse_bestmove line))"
proof -
  have 1: "parse_bestmove ''bestmove e7e8q ponder d7d6'' =
      Some \<lparr>from_sq = ''e7'', to_sq = ''e8'', promotion = Some ''q''\<rparr>"
    by (simp add: parse_bestmove_def at_index_def substring_def)
  have 2: "parse_bestmove ''bestmove (none)'' = None"
    by (simp add: parse_bestmove_def at_index_def)
  have 3: "parse_bestmove ''bestmove'' = None"
    by (simp add: parse_bestmove_def at_index_def)
  have 4: "tok \<noteq> [] \<and> tok \<noteq> ''(none)'' \<and> CHR '' '' \<notin> set tok \<longrightarrow>
        parse_bestmove (''bestmove '' @ tok) =
          Some \<lparr>from_sq = take 2 tok, to_sq = take 2 (drop 2 tok),
                promotion = (if 4 < length tok then Some (drop 4 tok) else None)\<rparr>
        \<and> parse_bestmove (''bestmove '' @ tok @ CHR '' '' # rest) = parse_bestmove (''bestmove '' @ tok)"
    using parse_bestmove_token(1) [of tok rest] parse_bestmove_token(2) [of tok] by simp
  have 5: "isReady ai \<and> worker ai \<and> messageHandlers ai = [] \<and> t < 5000
        \<and> startsWith line ''bestmove'' \<longrightarrow>
        fst (engine_search fen settings [(t, line)] ai) = Returns (parse_bestmove line)"
    using search_single_line [of ai t line fen settings] by simp
  show ?thesis
    using 1 2 3 4 5 by (intro conjI)
qed

theorem bestmove_parsing_witness:
  "parse_bestmove ''bestmove e2e4'' = Some \<lparr>from_sq = ''e2'', to_sq = ''e4'', promotion = None\<rparr>
   \<and> parse_bestmove ''bestmove e2e4 ponder e7e5'' = parse_bestmove ''bestmove e2e4''
   \<and> fst (engine_search ''8/8/8/8/8/8/8/8 w - - 0 1'' (no_settings hard) [(40, ''bestmove (none)'')] ready_ai)
       = Returns None"
  using bestmove_parsing [where tok = "''e2e4''" and rest = "''ponder e7e5''" and ai = ready_ai
      and t = 40 and line = "''bestmove (none)''" and fen = "''8/8/8/8/8/8/8/8 w - - 0 1''"
      and settings = "no_settings hard"]
  by (simp add: ready_ai_def startsWith_def)


lemma first_reaction_None: "first_reaction react ms = None \<longleftrightarrow> (\<forall>m\<in>set ms. react m = None)"
  by (induction ms) (auto split: option.splits)

lemma search_react_None: "search_react m = None \<longleftrightarrow> \<not> startsWith m ''bestmove''"
  by (simp add: search_react_def)

lemma eval_react_None:
  "eval_react d m = None \<longleftrightarrow>
     \<not> handler_accepts d m
       \<and> \<not> (startsWith m ''bestmove'' \<and> \<not> (startsWith m ''info'' \<and> includes_str m ''score cp''))"
  by (auto simp: eval_react_def handler_accepts_def split: option.splits)


subsection \<open>Timeouts\<close>

text \<open>
  A search on a ready engine with no other request pending: if none of the lines that
  arrive in the first 5000 ms starts with \<open>bestmove\<close>, the call resolves with no move; it
  neither hangs nor throws, and the handler it registered is removed.
\<close>

lemma search_times_out:
  assumes "isReady ai" and "worker ai" and "messageHandlers ai = []"
    and "\<forall>tm\<in>set inbox. fst tm < 5000 \<longrightarrow> \<not> startsWith (snd tm) ''bestmove''"
  shows "fst (engine_search fen settings inbox ai) = Returns None
       \<and> messageHandlers (snd (engine_search fen settings inbox ai)) = []"
proof -
  have "first_reaction search_react (before 5000 inbox) = None"
    using assms(4) by (auto simp: first_reaction_None before_def search_react_None)
  then show ?thesis
    using assms(1,2,3) by (simp add: engine_search_ready search_result_def)
qed

text \<open>
  An evaluation is rejected with the timeout error, and its handler removed, when in the
  first 3000 ms no line starts with \<open>bestmove\<close> and none passes the test of the handler.
\<close>

lemma evaluation_times_out:
  assumes "isReady ai" and "worker ai" and "messageHandlers ai = []"
    and "\<forall>tm\<in>set inbox. fst tm < 3000 \<longrightarrow>
           \<not> handler_accepts d (snd tm) \<and> \<not> startsWith (snd tm) ''bestmove''"
  shows "fst (evaluatePosition fen d inbox ai) = Throws EvaluationTimeout
       \<and> messageHandlers (snd (evaluatePosition fen d inbox ai)) = []"
proof -
  have "first_reaction (eval_react d) (before 3000 inbox) = None"
    using assms(4) by (auto simp: first_reaction_None before_def eval_react_None)
  then show ?thesis
    using assms(1,2,3) by (simp add: evaluatePosition_ready eval_result_def)
qed

text \<open>
  Claim C6 says that an evaluation is rejected with the timeout error when no score line
  of the target depth, and no \<open>bestmove\<close>, is delivered within 3000 ms. The test of the
  handler is passed by other lines as well: of the two lines below, delivered within 10
  ms, neither reports depth 8 and neither is a \<open>bestmove\<close>, but the first has the field
  \<open>seldepth 8\<close>, and the evaluation at target depth 8 resolves with its score -12 instead
  of being rejected.
\<close>

theorem evaluation_resolves_without_target_depth:
  "list_all (\<lambda>tm. fst tm < 3000 \<and> \<not> score_at_depth 8 (snd tm) \<and> \<not> startsWith (snd tm) ''bestmove'')
     shallow_lines
   \<and> map (reported_depth \<circ> snd) shallow_lines = [Some 4, Some 5]
   \<and> evaluatePosition pawn_fen 8 shallow_lines ready_ai =
       (Returns (- 12),
        ready_ai\<lparr>posted := [''position fen 7k/8/8/8/8/8/7P/K7 w - - 0 1'', ''go depth 8'']\<rparr>)"
  by code_simp

theorem evaluation_resolves_without_target_depth_witness:
  "isReady ready_ai \<and> worker ready_ai \<and> messageHandlers ready_ai = []
   \<and> fst (evaluatePosition pawn_fen 8 shallow_lines ready_ai) \<noteq> Throws EvaluationTimeout"
  using evaluation_resolves_without_target_depth by (simp add: ready_ai_def)

subsection \<open>The depth test of the evaluator\<close>

text \<open>
  Claim C5 says that the evaluation resolves with a score only on a line that reports
  the target depth, lines of a shallower depth being ignored. The handler tests whether
  the line contains the text \<open>depth 8\<close>, which the field \<open>seldepth 8\<close> of a line of depth 5
  does: at target depth 8 that line resolves the evaluation with its score 30.
\<close>

theorem evaluation_resolves_below_target_depth:
  "reported_depth ''info depth 5 seldepth 8 multipv 1 score cp 30 nodes 1000 pv e2e4'' = Some 5
   \<and> fst (evaluatePosition pawn_fen 8
        [(5, ''info depth 5 seldepth 8 multipv 1 score cp 30 nodes 1000 pv e2e4'')] ready_ai) = Returns 30"
  by code_simp

theorem evaluation_resolves_below_target_depth_witness:
  "isReady ready_ai \<and> worker ready_ai
   \<and> fst (evaluatePosition pawn_fen 8
        [(5, ''info depth 5 seldepth 8 multipv 1 score cp 30 nodes 1000 pv e2e4'')] ready_ai) = Returns 30"
  using evaluation_resolves_below_target_depth by (simp add: ready_ai_def)

subsection \<open>The commands of a search\<close>

lemma posted_search:
  "posted (post_search fen settings ai) =
     posted ai @ commands_in_order (truthy_flag (limitStrength settings) \<and> truthy_num (eloRating settings)) fen settings"
  by (cases "time settings"; cases "depth settings"; cases "nodes settings"; cases "skillLevel settings")
     (simp_all add: post_search_def commands_in_order_def searchCommand_def postMessage_def Let_def show_num_def)

text \<open>
  Claim C3 as stated fails: with \<open>limitStrength\<close> set and a rating of 0, the flag and a
  rating are both present, but the engine is told not to limit its strength.
\<close>

theorem strength_commands_counterexample:
  "posted (snd (engine_search pawn_fen zero_rating [] ready_ai))
     \<noteq> posted ready_ai @ claimed_commands pawn_fen zero_rating"
  by code_simp

text \<open>
  Claim C3, amended. The commands of a search on a ready engine are, in this order: the
  strength options, limited exactly when \<open>limitStrength\<close> is true and the rating is present
  and not 0; the skill level if present; the position; and one \<open>go\<close> command, with the
  time budget if present, else the depth if present, and then the node limit if present.
\<close>

theorem search_commands_in_order:
  assumes "isReady ai" and "worker ai"
  shows "posted (snd (engine_search fen settings inbox ai)) =
           posted ai @ commands_in_order
             (limitStrength settings = Some True \<and> eloRating settings \<noteq> None \<and> eloRating settings \<noteq> Some 0)
             fen settings"
proof -
  have "(truthy_flag (limitStrength settings) \<and> truthy_num (eloRating settings)) =
        (limitStrength settings = Some True \<and> eloRating settings \<noteq> None \<and> eloRating settings \<noteq> Some 0)"
    by (auto simp: truthy_flag_def truthy_num_def split: option.splits)
  then show ?thesis
    using assms by (simp add: engine_search_ready posted_search)
qed

theorem search_commands_in_order_witness:
  "posted (snd (engine_search pawn_fen (the (DEFAULT_SETTINGS medium)) [] ready_ai)) =
     [''setoption name UCI_LimitStrength value true'', ''setoption name UCI_Elo value 1800'',
      ''setoption name Skill Level value 8'', ''position fen 7k/8/8/8/8/8/7P/K7 w - - 0 1'',
      ''go movetime 1000'']"
proof -
  have r: "isReady ready_ai" "worker ready_ai"
    by (simp_all add: ready_ai_def)
  show ?thesis
    using search_commands_in_order [OF r, of pawn_fen "the (DEFAULT_SETTINGS medium)" "[]"]
    by (simp add: ready_ai_def commands_in_order_def no_settings_def show_num_def show_int_def
        digit_char_def pawn_fen_def)
qed


subsection \<open>The selectors return legal moves\<close>

lemma same_move_to_AIMove: "same_move (to_AIMove m) m"
  by (simp add: same_move_def to_AIMove_def)

lemma random_element_member:
  assumes "random_element r xs = Some x"
  shows "x \<in> set xs"
proof -
  define i where "i = \<lfloor>r * real (length xs)\<rfloor>"
  from assms have "0 \<le> i" and "i < int (length xs)" and x: "x = xs ! nat i"
    by (auto simp: random_element_def Let_def i_def split: if_splits)
  then have "nat i < length xs"
    by simp
  then show ?thesis
    unfolding x by (rule nth_mem)
qed

lemma random_element_defined:
  assumes "0 \<le> r" "r < 1" "xs \<noteq> []"
  shows "\<exists>x. random_element r xs = Some x"
proof -
  have pos: "0 < real (length xs)"
    using assms(3) by simp
  have "0 \<le> r * real (length xs)"
    using assms(1) by simp
  then have lo: "0 \<le> \<lfloor>r * real (length xs)\<rfloor>"
    by simp
  have "r * real (length xs) < 1 * real (length xs)"
    using assms(2) pos by (intro mult_strict_right_mono)
  then have "r * real (length xs) < real_of_int (int (length xs))"
    by simp
  then have hi: "\<lfloor>r * real (length xs)\<rfloor> < int (length xs)"
    by (simp only: floor_less_iff)
  show ?thesis
    using lo hi by (simp add: random_element_def Let_def)
qed

lemma random_element_single:
  assumes "0 \<le> r" "r < 1"
  shows "random_element r [x] = Some x"
  using random_element_defined [OF assms, of "[x]"] random_element_member [of r "[x]"]
  by auto

lemma random_move_member:
  "random_move r ms = Returns (Some mv) \<Longrightarrow> \<exists>m\<in>set ms. same_move mv m"
  using same_move_to_AIMove
  by (auto simp: random_move_def split: option.splits dest: random_element_member)

lemma random_move_defined:
  assumes "0 \<le> r" "r < 1" "ms \<noteq> []"
  shows "\<exists>mv. random_move r ms = Returns (Some mv)"
  using random_element_defined [OF assms] by (auto simp: random_move_def)

lemma closest_loop_member: "fst (closest_loop f ms (b, bd)) \<in> insert b (set ms)"
  by (induction ms arbitrary: b bd) (auto simp: Let_def)

lemma closest_loop_first: "fst (closest_loop f (m # ms) (m, bd)) \<in> set (m # ms)"
  using closest_loop_member [of f "m # ms" m bd] by simp

lemma worst_loop_member:
  "worst_loop ch fen d inb k ms (wm, ws) ai = (Returns (wm', ws'), ai') \<Longrightarrow>
     wm' = wm \<or> (\<exists>m\<in>set ms. wm' = Some (to_AIMove m))"
proof (induction ms arbitrary: k wm ws ai)
  case Nil
  then show ?case by simp
next
  case (Cons m ms)
  show ?case
  proof (cases "evaluatePosition (chess_fen ch (chess_move ch (chess_new ch fen) m)) d (inb k) ai")
    case (Pair out ai1)
    show ?thesis
    proof (cases out)
      case (Returns score)
      show ?thesis
      proof (cases "less_number score ws")
        case True
        with Cons.prems Pair Returns
        have "worst_loop ch fen d inb (Suc k) ms (Some (to_AIMove m), Finite score) ai1 = (Returns (wm', ws'), ai')"
          by simp
        from Cons.IH [OF this] show ?thesis by auto
      next
        case False
        with Cons.prems Pair Returns
        have "worst_loop ch fen d inb (Suc k) ms (wm, ws) ai1 = (Returns (wm', ws'), ai')"
          by simp
        from Cons.IH [OF this] show ?thesis by auto
      qed
    next
      case (Throws e)
      with Cons.prems Pair
      have "worst_loop ch fen d inb (Suc k) ms (wm, ws) ai1 = (Returns (wm', ws'), ai')"
        by simp
      from Cons.IH [OF this] show ?thesis by auto
    next
      case Hangs
      with Cons.prems Pair show ?thesis by simp
    qed
  qed
qed

lemma getRandomMove_member:
  "getRandomMove ch fen r = Returns (Some mv) \<Longrightarrow> \<exists>m\<in>set (chess_moves ch (chess_new ch fen)). same_move mv m"
  by (auto simp: getRandomMove_def Let_def split: if_splits dest: random_move_member)

lemma getHuddleMove_member:
  assumes "getHuddleMove ch fen r = Returns (Some mv)"
  shows "\<exists>m\<in>set (chess_moves ch (chess_new ch fen)). same_move mv m"
proof (cases "chess_moves ch (chess_new ch fen)")
  case Nil
  with assms show ?thesis by (simp add: getHuddleMove_def)
next
  case (Cons m0 rest)
  show ?thesis
  proof (cases "find_king (chess_board ch (chess_new ch fen)) (chess_turn ch (chess_new ch fen))")
    case None
    with assms Cons have "random_move r (m0 # rest) = Returns (Some mv)"
      by (simp add: getHuddleMove_def)
    from random_move_member [OF this] Cons show ?thesis by simp
  next
    case (Some kp)
    with assms Cons have "mv = to_AIMove (fst (closest_loop
        (huddle_distance ch (chess_new ch fen) (chess_turn ch (chess_new ch fen)) kp) (m0 # rest) (m0, Infinity)))"
      by (simp add: getHuddleMove_def Let_def)
    with closest_loop_first [of "huddle_distance ch (chess_new ch fen) (chess_turn ch (chess_new ch fen)) kp" m0 rest Infinity]
    show ?thesis using Cons same_move_to_AIMove by auto
  qed
qed

lemma getSwarmMove_member:
  assumes "getSwarmMove ch fen r = Returns (Some mv)"
  shows "\<exists>m\<in>set (chess_moves ch (chess_new ch fen)). same_move mv m"
proof (cases "chess_moves ch (chess_new ch fen)")
  case Nil
  with assms show ?thesis by (simp add: getSwarmMove_def)
next
  case (Cons m0 rest)
  define opp where "opp = (if chess_turn ch (chess_new ch fen) = White then Black else White)"
  show ?thesis
  proof (cases "find_king (chess_board ch (chess_new ch fen)) opp")
    case None
    with assms Cons have "random_move r (m0 # rest) = Returns (Some mv)"
      by (simp add: getSwarmMove_def opp_def)
    from random_move_member [OF this] Cons show ?thesis by simp
  next
    case (Some kp)
    with assms Cons have "mv = to_AIMove (fst (closest_loop
        (swarm_distance ch (chess_new ch fen) (chess_turn ch (chess_new ch fen)) kp) (m0 # rest) (m0, Infinity)))"
      by (simp add: getSwarmMove_def Let_def opp_def)
    with closest_loop_first [of "swarm_distance ch (chess_new ch fen) (chess_turn ch (chess_new ch fen)) kp" m0 rest Infinity]
    show ?thesis using Cons same_move_to_AIMove by auto
  qed
qed

lemma getWorstMove_member:
  assumes "fst (getWorstMove ch fen settings r inb ai) = Returns (Some mv)"
  shows "\<exists>m\<in>set (chess_moves ch (chess_new ch fen)). same_move mv m"
proof -
  define ms where "ms = chess_moves ch (chess_new ch fen)"
  have ready: "isReady ai" "worker ai"
    using assms by (auto simp: getWorstMove_def split: if_splits)
  consider "ms = []" | m where "ms = [m]" | a b rest where "ms = a # b # rest"
    by (cases ms rule: list.exhaust; cases "tl ms") auto
  then show ?thesis
  proof cases
    case 1
    with assms ready show ?thesis by (simp add: getWorstMove_def ms_def [symmetric])
  next
    case 2
    with assms ready have "mv = to_AIMove m"
      by (simp add: getWorstMove_def ms_def [symmetric])
    with 2 show ?thesis by (simp add: ms_def [symmetric] same_move_to_AIMove)
  next
    case 3
    obtain out ai' where loop: "worst_loop ch fen (depth_or_8 settings) inb 0 ms (None, Infinity) ai = (out, ai')"
      by (cases "worst_loop ch fen (depth_or_8 settings) inb 0 ms (None, Infinity) ai") auto
    show ?thesis
    proof (cases out)
      case (Returns acc)
      obtain wm ws where acc: "acc = (wm, ws)" by (cases acc) auto
      from worst_loop_member [of ch fen "depth_or_8 settings" inb 0 ms None Infinity ai wm ws ai'] loop Returns acc
      have mem: "wm = None \<or> (\<exists>m\<in>set ms. wm = Some (to_AIMove m))" by simp
      show ?thesis
      proof (cases wm)
        case None
        with assms ready 3 loop Returns acc have "random_move r ms = Returns (Some mv)"
          by (simp add: getWorstMove_def ms_def [symmetric])
        from random_move_member [OF this] show ?thesis by (simp add: ms_def)
      next
        case (Some w)
        with assms ready 3 loop Returns acc have "mv = w"
          by (simp add: getWorstMove_def ms_def [symmetric])
        with mem Some show ?thesis using same_move_to_AIMove by (auto simp: ms_def)
      qed
    next
      case (Throws e)
      with assms ready 3 loop show ?thesis by (simp add: getWorstMove_def ms_def [symmetric])
    next
      case Hangs
      with assms ready 3 loop show ?thesis by (simp add: getWorstMove_def ms_def [symmetric])
    qed
  qed
qed

lemma getHuddleMove_defined:
  assumes "0 \<le> r" "r < 1" "chess_moves ch (chess_new ch fen) \<noteq> []"
  shows "\<exists>mv. getHuddleMove ch fen r = Returns (Some mv)"
proof -
  obtain m0 rest where ms: "chess_moves ch (chess_new ch fen) = m0 # rest"
    using assms(3) by (cases "chess_moves ch (chess_new ch fen)") auto
  show ?thesis
    using random_move_defined [OF assms(1,2), of "m0 # rest"]
    by (auto simp: getHuddleMove_def ms Let_def split: option.splits)
qed

lemma getSwarmMove_defined:
  assumes "0 \<le> r" "r < 1" "chess_moves ch (chess_new ch fen) \<noteq> []"
  shows "\<exists>mv. getSwarmMove ch fen r = Returns (Some mv)"
proof -
  obtain m0 rest where ms: "chess_moves ch (chess_new ch fen) = m0 # rest"
    using assms(3) by (cases "chess_moves ch (chess_new ch fen)") auto
  show ?thesis
    using random_move_defined [OF assms(1,2), of "m0 # rest"]
    by (auto simp: getSwarmMove_def ms Let_def split: option.splits)
qed

lemma getRandomMove_defined:
  assumes "0 \<le> r" "r < 1" "chess_moves ch (chess_new ch fen) \<noteq> []"
  shows "\<exists>mv. getRandomMove ch fen r = Returns (Some mv)"
  using random_move_defined [OF assms] assms(3) by (simp add: getRandomMove_def Let_def)

text \<open>
  Claim C10. A move returned by the random, the Huddle, the Swarm or the worst-move
  selector has the origin, the target and the promotion of one of the legal moves of the
  position. When the position has a legal move, and the random number lies in \<open>[0, 1)\<close>
  as \<open>Math.random()\<close> promises, the random, the Huddle and the Swarm selector return a
  move.
\<close>

theorem selected_move_is_legal:
  "(getRandomMove ch fen r = Returns (Some mv) \<longrightarrow>
      (\<exists>m\<in>set (chess_moves ch (chess_new ch fen)). same_move mv m))
   \<and> (getHuddleMove ch fen r = Returns (Some mv) \<longrightarrow>
      (\<exists>m\<in>set (chess_moves ch (chess_new ch fen)). same_move mv m))
   \<and> (getSwarmMove ch fen r = Returns (Some mv) \<longrightarrow>
      (\<exists>m\<in>set (chess_moves ch (chess_new ch fen)). same_move mv m))
   \<and> (fst (getWorstMove ch fen settings r inb ai) = Returns (Some mv) \<longrightarrow>
      (\<exists>m\<in>set (chess_moves ch (chess_new ch fen)). same_move mv m))
   \<and> (0 \<le> r \<and> r < 1 \<and> chess_moves ch (chess_new ch fen) \<noteq> [] \<longrightarrow>
        (\<exists>mv. getRandomMove ch fen r = Returns (Some mv))
      \<and> (\<exists>mv. getHuddleMove ch fen r = Returns (Some mv))
      \<and> (\<exists>mv. getSwarmMove ch fen r = Returns (Some mv)))"
  using getRandomMove_member [of ch fen r mv] getHuddleMove_member [of ch fen r mv]
    getSwarmMove_member [of ch fen r mv] getWorstMove_member [of ch fen settings r inb ai mv]
    getRandomMove_defined [of r ch fen] getHuddleMove_defined [of r ch fen]
    getSwarmMove_defined [of r ch fen]
  by (intro conjI impI) blast+


theorem selected_move_is_legal_witness:
  "(\<exists>m\<in>set (chess_moves example_chess (chess_new example_chess pawn_fen)).
      same_move \<lparr>from_sq = ''a1'', to_sq = ''a2'', promotion = None\<rparr> m)
   \<and> (\<exists>m\<in>set (chess_moves example_chess (chess_new example_chess pawn_fen)).
      same_move \<lparr>from_sq = ''h2'', to_sq = ''h3'', promotion = None\<rparr> m)
   \<and> (\<exists>m\<in>set (chess_moves example_chess (chess_new example_chess pawn_fen)).
      same_move \<lparr>from_sq = ''h2'', to_sq = ''h4'', promotion = None\<rparr> m)
   \<and> (\<exists>mv. getRandomMove example_chess pawn_fen (1/2) = Returns (Some mv))
   \<and> (\<exists>mv. getHuddleMove example_chess pawn_fen (1/2) = Returns (Some mv))
   \<and> (\<exists>mv. getSwarmMove example_chess pawn_fen (1/2) = Returns (Some mv))"
proof -
  have r1: "getRandomMove example_chess pawn_fen (1/2) =
      Returns (Some \<lparr>from_sq = ''a1'', to_sq = ''a2'', promotion = None\<rparr>)"
    by code_simp
  have r2: "getHuddleMove example_chess pawn_fen (1/2) =
      Returns (Some \<lparr>from_sq = ''h2'', to_sq = ''h3'', promotion = None\<rparr>)"
    by code_simp
  have r3: "getSwarmMove example_chess pawn_fen (1/2) =
      Returns (Some \<lparr>from_sq = ''h2'', to_sq = ''h4'', promotion = None\<rparr>)"
    by code_simp
  have r4: "fst (getWorstMove example_chess pawn_fen (no_settings worstfish) (1/2) (\<lambda>k. []) ready_ai) =
      Returns (Some \<lparr>from_sq = ''a1'', to_sq = ''a2'', promotion = None\<rparr>)"
    by code_simp
  have ne: "chess_moves example_chess (chess_new example_chess pawn_fen) \<noteq> []"
    by code_simp
  have r: "(0::real) \<le> 1/2 \<and> (1/2::real) < 1"
    by simp
  show ?thesis
    using selected_move_is_legal [where ch = example_chess and fen = pawn_fen and r = "1/2"
        and mv = "\<lparr>from_sq = ''a1'', to_sq = ''a2'', promotion = None\<rparr>"
        and settings = "no_settings worstfish" and inb = "\<lambda>k. []" and ai = ready_ai]
      selected_move_is_legal [where ch = example_chess and fen = pawn_fen and r = "1/2"
        and mv = "\<lparr>from_sq = ''h2'', to_sq = ''h3'', promotion = None\<rparr>"
        and settings = "no_settings worstfish" and inb = "\<lambda>k. []" and ai = ready_ai]
      selected_move_is_legal [where ch = example_chess and fen = pawn_fen and r = "1/2"
        and mv = "\<lparr>from_sq = ''h2'', to_sq = ''h4'', promotion = None\<rparr>"
        and settings = "no_settings worstfish" and inb = "\<lambda>k. []" and ai = ready_ai]
      r1 r2 r3 r4 ne r
    by simp
qed

subsection \<open>A single legal move\<close>

text \<open>
  Claim C8 as stated fails for the worst-move selector: it first checks that the engine
  is ready, and on a service that is not it throws, whatever the legal moves are.
\<close>

theorem single_move_counterexample:
  "chess_moves example_chess (chess_new example_chess single_fen) = [mk_move ''a1'' ''a2'' ''Ka2'']
   \<and> getWorstMove example_chess single_fen (no_settings worstfish) 0 (\<lambda>k. []) idle_ai
       = (Throws NotReady, idle_ai)"
  by code_simp

text \<open>
  Claim C8, amended. In a position with exactly one legal move, the random, the Huddle
  and the Swarm selector return that move, and so does the worst-move selector when the
  engine is ready; it leaves the service as it was, so it starts no evaluation. When the
  engine is not ready the worst-move selector throws.
\<close>

theorem single_move_is_selected:
  assumes "chess_moves ch (chess_new ch fen) = [m]" and "0 \<le> r" and "r < 1"
  shows "getRandomMove ch fen r = Returns (Some (to_AIMove m))
       \<and> getHuddleMove ch fen r = Returns (Some (to_AIMove m))
       \<and> getSwarmMove ch fen r = Returns (Some (to_AIMove m))
       \<and> (isReady ai \<and> worker ai \<longrightarrow>
            getWorstMove ch fen settings r inb ai = (Returns (Some (to_AIMove m)), ai))
       \<and> (\<not> (isReady ai \<and> worker ai) \<longrightarrow>
            getWorstMove ch fen settings r inb ai = (Throws NotReady, ai))"
proof -
  have rnd: "random_move r [m] = Returns (Some (to_AIMove m))"
    using random_element_single [OF assms(2,3), of m] by (simp add: random_move_def)
  have 1: "getRandomMove ch fen r = Returns (Some (to_AIMove m))"
    using assms(1) rnd by (simp add: getRandomMove_def)
  have 2: "getHuddleMove ch fen r = Returns (Some (to_AIMove m))"
    using assms(1) rnd by (simp add: getHuddleMove_def Let_def split: option.splits)
  have 3: "getSwarmMove ch fen r = Returns (Some (to_AIMove m))"
    using assms(1) rnd by (simp add: getSwarmMove_def Let_def split: option.splits)
  have 4: "isReady ai \<and> worker ai \<longrightarrow>
            getWorstMove ch fen settings r inb ai = (Returns (Some (to_AIMove m)), ai)"
    using assms(1) by (simp add: getWorstMove_def)
  have 5: "\<not> (isReady ai \<and> worker ai) \<longrightarrow>
            getWorstMove ch fen settings r inb ai = (Throws NotReady, ai)"
    by (auto simp: getWorstMove_def)
  show ?thesis
    using 1 2 3 4 5 by (intro conjI)
qed

theorem single_move_is_selected_witness:
  "getRandomMove example_chess single_fen (1/2) =
     Returns (Some \<lparr>from_sq = ''a1'', to_sq = ''a2'', promotion = None\<rparr>)
   \<and> getHuddleMove example_chess single_fen (1/2) =
     Returns (Some \<lparr>from_sq = ''a1'', to_sq = ''a2'', promotion = None\<rparr>)
   \<and> getSwarmMove example_chess single_fen (1/2) =
     Returns (Some \<lparr>from_sq = ''a1'', to_sq = ''a2'', promotion = None\<rparr>)
   \<and> getWorstMove example_chess single_fen (no_settings worstfish) (1/2) (\<lambda>k. []) ready_ai =
     (Returns (Some \<lparr>from_sq = ''a1'', to_sq = ''a2'', promotion = None\<rparr>), ready_ai)
   \<and> getWorstMove example_chess single_fen (no_settings worstfish) (1/2) (\<lambda>k. []) idle_ai =
     (Throws NotReady, idle_ai)"
proof -
  have ms: "chess_moves example_chess (chess_new example_chess single_fen) = [mk_move ''a1'' ''a2'' ''Ka2'']"
    by code_simp
  have r: "(0::real) \<le> 1/2" "(1/2::real) < 1"
    by simp_all
  have ai: "isReady ready_ai \<and> worker ready_ai"
    by (simp add: ready_ai_def)
  have idle: "\<not> (isReady idle_ai \<and> worker idle_ai)"
    by (simp add: idle_ai_def)
  show ?thesis
    using single_move_is_selected [OF ms r, where settings = "no_settings worstfish"
        and inb = "\<lambda>k. []" and ai = ready_ai]
      single_move_is_selected [OF ms r, where settings = "no_settings worstfish"
        and inb = "\<lambda>k. []" and ai = idle_ai] ai idle
    by (simp add: to_AIMove_def mk_move_def)
qed

subsection \<open>No legal move\<close>

text \<open>
  Claim C7 as stated fails: the dispatcher does not look at the legal moves. At a
  stalemate, with the settings of the level \<open>medium\<close>, it sends the five commands of a
  search to the engine.
\<close>

theorem no_legal_move_counterexample:
  "chess_moves example_chess (chess_new example_chess stalemate_fen) = []
   \<and> posted ready_ai = []
   \<and> posted (snd (getBestMove example_chess stalemate_fen (the (DEFAULT_SETTINGS medium)) 0 (\<lambda>k. []) ready_ai)) =
       [''setoption name UCI_LimitStrength value true'', ''setoption name UCI_Elo value 1800'',
        ''setoption name Skill Level value 8'', ''position fen 7k/8/8/8/8/1q6/8/K7 w - - 0 1'',
        ''go movetime 1000'']"
  by code_simp

lemma commands_in_order_nonempty: "commands_in_order b fen settings \<noteq> []"
  by (simp add: commands_in_order_def)

text \<open>
  Claim C7, amended. In a position without a legal move, \<open>getBestMove\<close> returns no move
  and sends nothing to the engine when the level is \<open>random\<close>, \<open>huddle\<close> or \<open>swarm\<close>, and
  when the level is \<open>worstfish\<close> and the engine is ready; it is the selector of the level
  that finds the list empty. At the levels \<open>easy\<close>, \<open>medium\<close>, \<open>hard\<close> and \<open>custom\<close> it runs
  the search on a ready engine as in any other position, and commands are sent.
\<close>

theorem no_legal_move_without_engine:
  assumes "chess_moves ch (chess_new ch fen) = []"
  shows "(level settings \<in> {random, huddle, swarm} \<longrightarrow>
            getBestMove ch fen settings r inb ai = (Returns None, ai))
       \<and> (level settings = worstfish \<and> isReady ai \<and> worker ai \<longrightarrow>
            getBestMove ch fen settings r inb ai = (Returns None, ai))
       \<and> (level settings \<in> {easy, medium, hard, custom} \<and> isReady ai \<and> worker ai \<longrightarrow>
            getBestMove ch fen settings r inb ai = engine_search fen settings (inb 0) ai
            \<and> posted (snd (getBestMove ch fen settings r inb ai)) \<noteq> posted ai)"
proof -
  have heuristic: "level settings \<in> {random, huddle, swarm} \<longrightarrow>
      getBestMove ch fen settings r inb ai = (Returns None, ai)"
    using assms
    by (auto simp: getBestMove_def getRandomMove_def getHuddleMove_def getSwarmMove_def)
  have worst: "level settings = worstfish \<and> isReady ai \<and> worker ai \<longrightarrow>
      getBestMove ch fen settings r inb ai = (Returns None, ai)"
    using assms by (simp add: getBestMove_def getWorstMove_def)
  have engine: "level settings \<in> {easy, medium, hard, custom} \<and> isReady ai \<and> worker ai \<longrightarrow>
      getBestMove ch fen settings r inb ai = engine_search fen settings (inb 0) ai
      \<and> posted (snd (getBestMove ch fen settings r inb ai)) \<noteq> posted ai"
  proof
    assume a: "level settings \<in> {easy, medium, hard, custom} \<and> isReady ai \<and> worker ai"
    then have "getBestMove ch fen settings r inb ai = engine_search fen settings (inb 0) ai"
      by (auto simp: getBestMove_def)
    then show "getBestMove ch fen settings r inb ai = engine_search fen settings (inb 0) ai
      \<and> posted (snd (getBestMove ch fen settings r inb ai)) \<noteq> posted ai"
      using a by (simp add: engine_search_ready posted_search commands_in_order_nonempty)
  qed
  show ?thesis
    using heuristic worst engine by (intro conjI)
qed

theorem no_legal_move_without_engine_witness:
  "getBestMove example_chess stalemate_fen (no_settings swarm) 0 (\<lambda>k. []) ready_ai = (Returns None, ready_ai)
   \<and> getBestMove example_chess stalemate_fen (no_settings worstfish) 0 (\<lambda>k. []) ready_ai = (Returns None, ready_ai)
   \<and> posted (snd (getBestMove example_chess stalemate_fen (no_settings hard) 0 (\<lambda>k. []) ready_ai))
        \<noteq> posted ready_ai"
proof -
  have ms: "chess_moves example_chess (chess_new example_chess stalemate_fen) = []"
    by code_simp
  show ?thesis
    using no_legal_move_without_engine [OF ms, where settings = "no_settings swarm" and r = 0
        and inb = "\<lambda>k. []" and ai = ready_ai]
      no_legal_move_without_engine [OF ms, where settings = "no_settings worstfish" and r = 0
        and inb = "\<lambda>k. []" and ai = ready_ai]
      no_legal_move_without_engine [OF ms, where settings = "no_settings hard" and r = 0
        and inb = "\<lambda>k. []" and ai = ready_ai]
    by (auto simp: no_settings_def ready_ai_def)
qed

subsection \<open>Determinism of Huddle and Swarm\<close>

text \<open>
  Claim C9. For every position, that is for every FEN from which the rules library
  builds a game, whose board then has both kings, the move of the Huddle selector and
  the move of the Swarm selector do not depend on the random number: two calls on the
  same position return the same move.
\<close>

theorem huddle_swarm_deterministic:
  assumes "both_kings ch fen"
  shows "getHuddleMove ch fen r1 = getHuddleMove ch fen r2
       \<and> getSwarmMove ch fen r1 = getSwarmMove ch fen r2"
proof (cases "chess_turn ch (chess_new ch fen)")
  case White
  with assms show ?thesis
    by (auto simp: both_kings_def getHuddleMove_def getSwarmMove_def Let_def split: list.splits)
next
  case Black
  with assms show ?thesis
    by (auto simp: both_kings_def getHuddleMove_def getSwarmMove_def Let_def split: list.splits)
qed

theorem huddle_swarm_deterministic_witness:
  "both_kings example_chess pawn_fen
   \<and> getHuddleMove example_chess pawn_fen 0 = getHuddleMove example_chess pawn_fen (1/2)
   \<and> getSwarmMove example_chess pawn_fen 0 = getSwarmMove example_chess pawn_fen (1/2)"
proof -
  have k: "both_kings example_chess pawn_fen"
    by code_simp
  show ?thesis
    using huddle_swarm_deterministic [OF k, where ?r1.0 = 0 and ?r2.0 = "1/2"] k
    by simp
qed

subsection \<open>The Huddle measure\<close>

text \<open>
  On the board, the distance that the selectors compute from the name of a square is the
  Chebyshev distance between the indices.
\<close>

lemma square_file: "f < 8 \<Longrightarrow> int (of_char (square_name f r ! 0)) - 97 = int f"
  by (simp add: square_name_def)

lemma below_eight: "(r::nat) < 8 \<Longrightarrow> r \<in> {7, 6, 5, 4, 3, 2, 1, 0}"
  by auto

lemma square_rank: "r < 8 \<Longrightarrow> parseInt [square_name f r ! 1] - 1 = int r"
  using below_eight [of r]
  by (auto simp: square_name_def parseInt_def parse_nat_def digit_val_def digit_char_def)

lemma distance_on_board:
  assumes "f < 8" "r < 8"
  shows "getChebyshevDistance (square_name f r) (kf, kr) =
           max \<bar>int f - int kf\<bar> \<bar>int r - int kr\<bar>"
  using square_file [OF assms(1), of r] square_rank [OF assms(2), of f]
  by (simp add: getChebyshevDistance_def Let_def)


text \<open>
  The loop of Huddle and Swarm returns the first move with the least total distance.
  For Huddle that is the distance to the square on which the king stood before the move.
\<close>

lemma less_number_trans:
  "less_number s (Finite t) \<Longrightarrow> less_number t ws \<Longrightarrow> less_number (s::int) ws"
  by (cases ws) auto

lemma closest_loop_cases:
  "(closest_loop f ms (b, bd) = (b, bd) \<and> (\<forall>m\<in>set ms. \<not> less_number (f m) bd))
   \<or> (\<exists>pre m post. ms = pre @ m # post
        \<and> closest_loop f ms (b, bd) = (m, Finite (f m)) \<and> less_number (f m) bd
        \<and> (\<forall>x\<in>set pre. f m < f x) \<and> (\<forall>x\<in>set post. f m \<le> f x))"
proof (induction ms arbitrary: b bd)
  case Nil
  show ?case by simp
next
  case (Cons x xs)
  show ?case
  proof (cases "less_number (f x) bd")
    case True
    have step: "closest_loop f (x # xs) (b, bd) = closest_loop f xs (x, Finite (f x))"
      using True by (simp add: Let_def)
    from Cons.IH [of x "Finite (f x)"] show ?thesis
    proof (elim disjE conjE exE)
      assume same: "closest_loop f xs (x, Finite (f x)) = (x, Finite (f x))"
        and rest: "\<forall>m\<in>set xs. \<not> less_number (f m) (Finite (f x))"
      have "x # xs = [] @ x # xs" by simp
      moreover have "\<forall>y\<in>set xs. f x \<le> f y"
        using rest by auto
      ultimately show ?thesis
        using step same True by (intro disjI2 exI [of _ "[]"] exI [of _ x] exI [of _ xs]) simp
    next
      fix pre m post
      assume dec: "xs = pre @ m # post"
        and res: "closest_loop f xs (x, Finite (f x)) = (m, Finite (f m))"
        and lt: "less_number (f m) (Finite (f x))"
        and before: "\<forall>y\<in>set pre. f m < f y"
        and after: "\<forall>y\<in>set post. f m \<le> f y"
      have "x # xs = (x # pre) @ m # post"
        using dec by simp
      moreover have "\<forall>y\<in>set (x # pre). f m < f y"
        using before lt by auto
      moreover have "less_number (f m) bd"
        using less_number_trans [OF lt True] .
      ultimately show ?thesis
        using step res after
        by (intro disjI2 exI [of _ "x # pre"] exI [of _ m] exI [of _ post]) simp
    qed
  next
    case False
    have step: "closest_loop f (x # xs) (b, bd) = closest_loop f xs (b, bd)"
      using False by (simp add: Let_def)
    from Cons.IH [of b bd] show ?thesis
    proof (elim disjE conjE exE)
      assume "closest_loop f xs (b, bd) = (b, bd)" and "\<forall>m\<in>set xs. \<not> less_number (f m) bd"
      then show ?thesis
        using step False by simp
    next
      fix pre m post
      assume dec: "xs = pre @ m # post"
        and res: "closest_loop f xs (b, bd) = (m, Finite (f m))"
        and lt: "less_number (f m) bd"
        and before: "\<forall>y\<in>set pre. f m < f y"
        and after: "\<forall>y\<in>set post. f m \<le> f y"
      have "x # xs = (x # pre) @ m # post"
        using dec by simp
      moreover have "f m < f x"
        using lt False by (cases bd) auto
      then have "\<forall>y\<in>set (x # pre). f m < f y"
        using before by auto
      ultimately show ?thesis
        using step res after lt
        by (intro disjI2 exI [of _ "x # pre"] exI [of _ m] exI [of _ post]) simp
    qed
  qed
qed

lemma closest_loop_first_minimum:
  assumes "ms \<noteq> []"
  shows "\<exists>pre m post. ms = pre @ m # post \<and> fst (closest_loop f ms (b, Infinity)) = m
           \<and> (\<forall>x\<in>set pre. f m < f x) \<and> (\<forall>x\<in>set post. f m \<le> f x)"
proof -
  from assms obtain x where "x \<in> set ms"
    by (cases ms) auto
  then have "\<not> (\<forall>m\<in>set ms. \<not> less_number (f m) Infinity)"
    by auto
  with closest_loop_cases [of f ms b Infinity]
  obtain pre m post where "ms = pre @ m # post" "closest_loop f ms (b, Infinity) = (m, Finite (f m))"
    "\<forall>x\<in>set pre. f m < f x" "\<forall>x\<in>set post. f m \<le> f x"
    by blast
  then show ?thesis
    by (intro exI [of _ pre] exI [of _ m] exI [of _ post]) simp
qed

lemma getHuddleMove_first_minimum:
  assumes "chess_moves ch (chess_new ch fen) \<noteq> []"
    and "find_king (chess_board ch (chess_new ch fen)) (chess_turn ch (chess_new ch fen)) = Some kingPos"
  shows "\<exists>pre m post. chess_moves ch (chess_new ch fen) = pre @ m # post
           \<and> getHuddleMove ch fen r = Returns (Some (to_AIMove m))
           \<and> (\<forall>x\<in>set pre. huddle_distance ch (chess_new ch fen) (chess_turn ch (chess_new ch fen)) kingPos m
                            < huddle_distance ch (chess_new ch fen) (chess_turn ch (chess_new ch fen)) kingPos x)
           \<and> (\<forall>x\<in>set post. huddle_distance ch (chess_new ch fen) (chess_turn ch (chess_new ch fen)) kingPos m
                            \<le> huddle_distance ch (chess_new ch fen) (chess_turn ch (chess_new ch fen)) kingPos x)"
proof -
  obtain m0 rest where ms: "chess_moves ch (chess_new ch fen) = m0 # rest"
    using assms(1) by (cases "chess_moves ch (chess_new ch fen)") auto
  have run: "getHuddleMove ch fen r = Returns (Some (to_AIMove (fst (closest_loop
      (huddle_distance ch (chess_new ch fen) (chess_turn ch (chess_new ch fen)) kingPos)
      (chess_moves ch (chess_new ch fen)) (m0, Infinity)))))"
    using assms(2) by (simp add: getHuddleMove_def ms Let_def)
  from closest_loop_first_minimum [OF assms(1),
      of "huddle_distance ch (chess_new ch fen) (chess_turn ch (chess_new ch fen)) kingPos" m0]
  show ?thesis
    unfolding run by blast
qed

lemma getSwarmMove_first_minimum:
  assumes "chess_moves ch (chess_new ch fen) \<noteq> []"
    and "find_king (chess_board ch (chess_new ch fen))
           (if chess_turn ch (chess_new ch fen) = White then Black else White) = Some kingPos"
  shows "\<exists>pre m post. chess_moves ch (chess_new ch fen) = pre @ m # post
           \<and> getSwarmMove ch fen r = Returns (Some (to_AIMove m))
           \<and> (\<forall>x\<in>set pre. swarm_distance ch (chess_new ch fen) (chess_turn ch (chess_new ch fen)) kingPos m
                            < swarm_distance ch (chess_new ch fen) (chess_turn ch (chess_new ch fen)) kingPos x)
           \<and> (\<forall>x\<in>set post. swarm_distance ch (chess_new ch fen) (chess_turn ch (chess_new ch fen)) kingPos m
                            \<le> swarm_distance ch (chess_new ch fen) (chess_turn ch (chess_new ch fen)) kingPos x)"
proof -
  obtain m0 rest where ms: "chess_moves ch (chess_new ch fen) = m0 # rest"
    using assms(1) by (cases "chess_moves ch (chess_new ch fen)") auto
  have run: "getSwarmMove ch fen r = Returns (Some (to_AIMove (fst (closest_loop
      (swarm_distance ch (chess_new ch fen) (chess_turn ch (chess_new ch fen)) kingPos)
      (chess_moves ch (chess_new ch fen)) (m0, Infinity)))))"
    using assms(2) by (simp add: getSwarmMove_def ms Let_def)
  from closest_loop_first_minimum [OF assms(1),
      of "swarm_distance ch (chess_new ch fen) (chess_turn ch (chess_new ch fen)) kingPos" m0]
  show ?thesis
    unfolding run by blast
qed


text \<open>
  Claim C2 says that Huddle returns the first legal move with the least sum of the
  distances of the mover's pieces to the mover's king on the position after the move.
  The selector finds the king once, before the moves are tried, and measures every
  position to that square. With the king on a1 and a pawn on h2, the sums to the king's
  new square are 7, 7, 7, 6, 6 for h3, h4, Ka2, Kb2, Kb1, so that Kb2 is the first
  minimum; the selector computes 7, 7, 8, 8, 8 and returns h3.
\<close>

theorem huddle_measures_to_old_king_square:
  "getHuddleMove example_chess pawn_fen 0 =
      Returns (Some \<lparr>from_sq = ''h2'', to_sq = ''h3'', promotion = None\<rparr>)
   \<and> find_king (chess_board example_chess (chess_new example_chess pawn_fen))
        (chess_turn example_chess (chess_new example_chess pawn_fen)) = Some (0, 7)
   \<and> map (claimed_huddle_distance example_chess pawn_fen)
        (chess_moves example_chess (chess_new example_chess pawn_fen)) =
      [Some 7, Some 7, Some 7, Some 6, Some 6]
   \<and> map (huddle_distance example_chess (chess_new example_chess pawn_fen) White (0, 7))
        (chess_moves example_chess (chess_new example_chess pawn_fen)) =
      [7, 7, 8, 8, 8]"
  by code_simp


theorem huddle_measures_to_old_king_square_witness:
  "chess_moves example_chess (chess_new example_chess pawn_fen) \<noteq> []
   \<and> find_king (chess_board example_chess (chess_new example_chess pawn_fen))
        (chess_turn example_chess (chess_new example_chess pawn_fen)) \<noteq> None
   \<and> getHuddleMove example_chess pawn_fen 0 =
        Returns (Some \<lparr>from_sq = ''h2'', to_sq = ''h3'', promotion = None\<rparr>)"
  using huddle_measures_to_old_king_square by auto


subsection \<open>The worst move\<close>












end
